theory Spec2Isabelle
  imports Main
begin

section \<open>Data model of the webhook forwarder\<close>

text \<open>
  The embedding follows \<^verbatim>\<open>cmd/queue-inmemory-webhook-forwarder/forwarder.go\<close>.
  Go's \<^verbatim>\<open>int\<close> and \<^verbatim>\<open>time.Duration\<close> (nanoseconds) are modelled as
  \<^typ>\<open>int\<close>; the retry counter never exceeds \<open>retryLimit + 1\<close>, and the only
  constructor fixes \<open>retryLimit = 3\<close>, so no machine arithmetic overflows.
  Records of the input stream (\<^verbatim>\<open>*logHTTPHandlerRequestBody\<close>) are opaque: a type
  variable \<open>'r\<close>.
\<close>

text \<open>Go \<^verbatim>\<open>error\<close> values: an error coming from a library, the error built by
  \<^verbatim>\<open>errors.Errorf("unexpected status code from post request got:%#v want:%#v", code,
  "status code in[200,300)")\<close>, and \<^verbatim>\<open>errors.Wrap(err, msg)\<close>.\<close>

datatype error =
    External string
  | UnexpectedStatus int
  | Wrap error string

text \<open>\<^verbatim>\<open>type webhookForwarder struct\<close>.\<close>

record webhookForwarder =
  endpoint :: string
  batchSize :: int
  batchInterval :: int
  retrySleepInterval :: int
  retryLimit :: int

text \<open>The fields of \<^verbatim>\<open>dic.flags\<close> read by the constructor (the container type is
  declared outside the given sources; only these three fields are used).\<close>

record flags =
  postEndpoint :: string
  flagBatchSize :: int
  flagBatchInterval :: int

definition second :: int where
  "second = 1000000000"

definition newWebhookForwarderHandler :: "flags \<Rightarrow> webhookForwarder" where
  "newWebhookForwarderHandler fl =
     \<lparr> endpoint = postEndpoint fl,
       batchSize = flagBatchSize fl,
       batchInterval = flagBatchInterval fl,
       retrySleepInterval = 2 * second,
       retryLimit = 3 \<rparr>"

text \<open>
  An outbound \<^verbatim>\<open>*http.Request\<close> as the forwarder holds it: method, URL, header
  entries in the order they were added, and its body. The body is the one-shot
  \<^verbatim>\<open>bytes.Buffer\<close> made by \<^verbatim>\<open>bytes.NewBuffer(bodyWebhook)\<close>: \<open>req_body\<close> is what is still
  unread of it. Reading takes bytes off its front, and nothing in the forwarder puts
  them back.
\<close>

record request =
  req_method :: string
  req_url :: string
  req_body :: string
  req_header :: "(string \<times> string) list"

text \<open>What \<^verbatim>\<open>http.DefaultClient.Do\<close> hands back: a transport-level error, or a
  response with its status code.\<close>

datatype reply =
    TransportError error
  | Response int

text \<open>
  The library calls the forwarder depends on, as parameters of the model:
  \<^item> \<open>marshal\<close> is \<^verbatim>\<open>json.Marshal\<close> on the batch;
  \<^item> \<open>url_error\<close> is the check \<^verbatim>\<open>http.NewRequest\<close> makes on the URL
    (\<open>Some e\<close> when the URL is rejected);
  \<^item> \<open>http_do n req\<close> is the outcome of the \<open>n\<close>-th call of
    \<^verbatim>\<open>http.DefaultClient.Do\<close> (counted from 0 over the life of the process), made with
    the request in the state \<open>req\<close>;
  \<^item> \<open>http_read n req\<close> is the number of bytes that call reads off the request's body.
\<close>

record 'r env =
  marshal :: "'r list \<Rightarrow> error + string"
  url_error :: "string \<Rightarrow> error option"
  http_do :: "nat \<Rightarrow> request \<Rightarrow> reply"
  http_read :: "nat \<Rightarrow> request \<Rightarrow> nat"

text \<open>Observable effects, in the order they happen. \<open>HttpDo\<close> holds the request in
  the state in which it is handed to the client. The success log line also carries a
  latency, which is wall-clock time and is left out.\<close>

datatype event =
    HttpDo request
  | Sleep int
  | LogPostErr int int
  | LogBatchInterval int
  | LogSuccess int nat
  | ErrCh error

record world =
  calls :: nat
  trace :: "event list"

definition emit :: "event list \<Rightarrow> world \<Rightarrow> world" where
  "emit evs wd = wd\<lparr> trace := trace wd @ evs \<rparr>"

text \<open>The request after the \<open>n\<close>-th call has read from its body: the same request
  object, with that many bytes gone from the buffer.\<close>

definition bodyRead :: "'r env \<Rightarrow> nat \<Rightarrow> request \<Rightarrow> request" where
  "bodyRead env n req = req\<lparr> req_body := drop (http_read env n req) (req_body req) \<rparr>"

text \<open>\<^verbatim>\<open>http.DefaultClient.Do(req)\<close>: the call is recorded with the request as it
  is, the call counter advances, the environment decides the outcome, and the request
  is left with what the call did not read of its body.\<close>

definition clientDo :: "'r env \<Rightarrow> request \<Rightarrow> world \<Rightarrow> reply \<times> request \<times> world" where
  "clientDo env req wd =
     (http_do env (calls wd) req,
      bodyRead env (calls wd) req,
      \<lparr> calls = Suc (calls wd), trace = trace wd @ [HttpDo req] \<rparr>)"

text \<open>\<^verbatim>\<open>http.NewRequest(method, url, body)\<close>: fails when the URL does not parse,
  otherwise a request with an empty header and the whole of \<open>b\<close> to be read.\<close>

definition newRequest :: "'r env \<Rightarrow> string \<Rightarrow> string \<Rightarrow> string \<Rightarrow> error + request" where
  "newRequest env m u b =
     (case url_error env u of
        Some e \<Rightarrow> Inl e
      | None \<Rightarrow> Inr \<lparr> req_method = m, req_url = u, req_body = b, req_header = [] \<rparr>)"

definition headerAdd :: "string \<Rightarrow> string \<Rightarrow> request \<Rightarrow> request" where
  "headerAdd k v req = req\<lparr> req_header := req_header req @ [(k, v)] \<rparr>"

section \<open>DeliveryClient\<close>

text \<open>
  The retry loop of \<^verbatim>\<open>forwardWithRetries\<close> (the \<^verbatim>\<open>for\<close> statement), with its three
  loop variables \<open>retries\<close>, \<open>lastErr\<close>, \<open>lastStatusCode\<close>. The request is built once,
  before the loop, and every pass hands the same object to the client: \<open>req\<close> is its
  state at the start of a pass, and the next pass gets it as the call left it. The log
  line before a sleep is the event \<open>LogPostErr\<close> with its two fields. The deferred
  \<^verbatim>\<open>res.Body.Close()\<close> closes response bodies when the function returns and has no
  effect on what it returns; the context attached to the request only reaches the HTTP
  client, whose outcome is the environment's.
\<close>

function forwardLoop ::
  "webhookForwarder \<Rightarrow> 'r env \<Rightarrow> request \<Rightarrow> int \<Rightarrow> error option \<Rightarrow> int \<Rightarrow> world
     \<Rightarrow> int \<times> error option \<times> world" where
  "forwardLoop w env req retries lastErr lastStatusCode wd =
     (if retries > retryLimit w then (lastStatusCode, lastErr, wd)
      else
        let wd1 = (if retries \<ge> 1
                   then emit [LogPostErr retries (retrySleepInterval w),
                              Sleep (retrySleepInterval w)] wd
                   else wd);
            res = clientDo env req wd1
        in (case fst res of
              TransportError err \<Rightarrow>
                forwardLoop w env (fst (snd res)) (retries + 1)
                  (Some (Wrap err ''DO http client request'')) lastStatusCode
                  (snd (snd res))
            | Response statusCode \<Rightarrow>
                if statusCode \<ge> 200 \<and> statusCode < 300
                then (statusCode, None, snd (snd res))
                else forwardLoop w env (fst (snd res)) (retries + 1)
                       (Some (UnexpectedStatus statusCode)) statusCode
                       (snd (snd res))))"
  by pat_completeness auto
termination
  by (relation "measure (\<lambda>(w, env, req, retries, lastErr, lastStatusCode, wd).
                            nat (retryLimit w + 1 - retries))") auto

declare forwardLoop.simps [simp del]

definition forwardWithRetries ::
  "webhookForwarder \<Rightarrow> 'r env \<Rightarrow> 'r list \<Rightarrow> world \<Rightarrow> int \<times> error option \<times> world" where
  "forwardWithRetries w env eventsPayload wd =
     (case marshal env eventsPayload of
        Inl err \<Rightarrow> (0, Some (Wrap err ''marshal''), wd)
      | Inr bodyWebhook \<Rightarrow>
          (case newRequest env ''POST'' (endpoint w) bodyWebhook of
             Inl err \<Rightarrow> (0, Some (Wrap err ''new HTTP request''), wd)
           | Inr req \<Rightarrow>
               forwardLoop w env (headerAdd ''Content-Type'' ''application/json'' req)
                 0 None 0 wd))"

text \<open>
  \<^verbatim>\<open>forwardEvents\<close>. The flag is the parameter \<^verbatim>\<open>batchInterval bool\<close>. The send
  \<^verbatim>\<open>errCh <- err\<close> is the event \<open>ErrCh\<close>: the model takes the sink to be read, so that
  the send completes. The two log lines are the events \<open>LogBatchInterval\<close> and
  \<open>LogSuccess\<close>.
\<close>

definition forwardEvents ::
  "webhookForwarder \<Rightarrow> 'r env \<Rightarrow> 'r list \<Rightarrow> bool \<Rightarrow> world \<Rightarrow> world" where
  "forwardEvents w env eventsPayload byInterval wd =
     (if length eventsPayload = 0 then wd
      else
        let wd1 = (if byInterval then emit [LogBatchInterval (batchInterval w)] wd else wd)
        in (case forwardWithRetries w env eventsPayload wd1 of
              (statusCode, Some err, wd2) \<Rightarrow>
                emit [ErrCh (Wrap err ''forward with retries exhausted'')] wd2
            | (statusCode, None, wd2) \<Rightarrow>
                emit [LogSuccess statusCode (length eventsPayload)] wd2))"

section \<open>Accumulator\<close>

text \<open>The local variables of \<^verbatim>\<open>bgProcessor\<close>: the buffer, and the timer channel
  (\<open>None\<close> is the nil channel, \<open>Some d\<close> the channel of \<^verbatim>\<open>time.After(d)\<close>), together with
  the world the goroutine acts on.\<close>

record 'r bgState =
  eventsPayload :: "'r list"
  deadline :: "int option"
  wld :: world

text \<open>
  What a \<^verbatim>\<open>select\<close> finds when it runs: a sender waiting on \<^verbatim>\<open>msg\<close> with a record,
  the timer gone off, or nothing. Which one it is at each iteration is up to the
  producers, the clock and the scheduler: an input of the model. \<^verbatim>\<open>forward\<close> starts
  \<^verbatim>\<open>bgProcessor\<close> and then sends the records of \<^verbatim>\<open>msgStream\<close> on \<^verbatim>\<open>msg\<close> in order; it
  never closes \<^verbatim>\<open>msg\<close>, so once \<^verbatim>\<open>msgStream\<close> is closed no record is ever ready again.

  Go's rule for \<^verbatim>\<open>select\<close> over the two receive cases: a case that can proceed runs;
  a receive from a nil channel can never proceed; when no case can proceed the default
  case runs if there is one, and otherwise the goroutine blocks (\<open>None\<close>).
\<close>

datatype 'r ready = RecvMsg 'r | DeadlineFired | NoneReady

datatype 'r selected = CaseMsg 'r | CaseDeadline | CaseDefault

definition goSelect :: "bool \<Rightarrow> bool \<Rightarrow> 'r ready \<Rightarrow> 'r selected option" where
  "goSelect hasDefault timerSet rdy =
     (case rdy of
        RecvMsg ep \<Rightarrow> Some (CaseMsg ep)
      | DeadlineFired \<Rightarrow>
          if timerSet then Some CaseDeadline
          else if hasDefault then Some CaseDefault else None
      | NoneReady \<Rightarrow> if hasDefault then Some CaseDefault else None)"

text \<open>The statements of \<^verbatim>\<open>bgProcessor\<close> before its \<^verbatim>\<open>for\<close>.\<close>

definition bgInit :: "webhookForwarder \<Rightarrow> world \<Rightarrow> 'r bgState" where
  "bgInit w wd =
     \<lparr> eventsPayload = [],
       deadline = (if batchInterval w > 0 then Some (batchInterval w) else None),
       wld = wd \<rparr>"

text \<open>
  One pass through the body of the \<^verbatim>\<open>for\<close>: the size check, then the
  \<^verbatim>\<open>select\<close>, which has a \<^verbatim>\<open>default\<close> case. \<open>None\<close> would mean that the goroutine is
  parked in the \<^verbatim>\<open>select\<close>. After the timer channel has delivered its value it is
  re-armed; were it not (\<open>batchInterval \<le> 0\<close>, which cannot be when a timer was set), the
  drained channel would never deliver again, which is \<open>None\<close>.
\<close>

definition bgIteration ::
  "webhookForwarder \<Rightarrow> 'r env \<Rightarrow> 'r ready \<Rightarrow> 'r bgState \<Rightarrow> 'r bgState option" where
  "bgIteration w env rdy st =
     (let st1 =
        (if batchSize w > 0 \<and> int (length (eventsPayload st)) \<ge> batchSize w
         then \<lparr> eventsPayload = [],
                deadline = (if batchInterval w > 0 then Some (batchInterval w)
                            else deadline st),
                wld = forwardEvents w env (eventsPayload st) False (wld st) \<rparr>
         else st)
      in (case goSelect True (deadline st1 \<noteq> None) rdy of
            None \<Rightarrow> None
          | Some (CaseMsg ep) \<Rightarrow> Some (st1\<lparr> eventsPayload := eventsPayload st1 @ [ep] \<rparr>)
          | Some CaseDeadline \<Rightarrow>
              Some \<lparr> eventsPayload = [],
                     deadline = (if batchInterval w > 0 then Some (batchInterval w)
                                 else None),
                     wld = forwardEvents w env (eventsPayload st1) True (wld st1) \<rparr>
          | Some CaseDefault \<Rightarrow> Some st1))"

text \<open>The state after the loop has gone through the iterations of a finite schedule.\<close>

fun bgRun ::
  "webhookForwarder \<Rightarrow> 'r env \<Rightarrow> 'r ready list \<Rightarrow> 'r bgState \<Rightarrow> 'r bgState option" where
  "bgRun w env [] st = Some st"
| "bgRun w env (rdy # sched) st =
     (case bgIteration w env rdy st of
        None \<Rightarrow> None
      | Some st' \<Rightarrow> bgRun w env sched st')"

text \<open>
  The \<^verbatim>\<open>for\<close> loop itself, over an unending schedule. Its body holds no
  \<^verbatim>\<open>return\<close> and no \<^verbatim>\<open>break\<close>: the only continuation of an iteration is the next
  one. A result \<open>Some st\<close> would be the state at which \<^verbatim>\<open>bgProcessor\<close> returns.
\<close>

partial_function (option) bgLoop ::
  "webhookForwarder \<Rightarrow> 'r env \<Rightarrow> (nat \<Rightarrow> 'r ready) \<Rightarrow> nat \<Rightarrow> 'r bgState
     \<Rightarrow> 'r bgState option" where
  "bgLoop w env sched i st =
     Option.bind (bgIteration w env (sched i) st) (bgLoop w env sched (Suc i))"

definition bgProcessor ::
  "webhookForwarder \<Rightarrow> 'r env \<Rightarrow> (nat \<Rightarrow> 'r ready) \<Rightarrow> world \<Rightarrow> 'r bgState option" where
  "bgProcessor w env sched wd = bgLoop w env sched 0 (bgInit w wd)"

section \<open>Vocabulary of the properties\<close>

text \<open>A reply that ends the retry loop: a response with status in \<open>[200,300)\<close>.\<close>

definition is2xx :: "reply \<Rightarrow> bool" where
  "is2xx r = (case r of Response sc \<Rightarrow> 200 \<le> sc \<and> sc < 300 | TransportError e \<Rightarrow> False)"

text \<open>What a failed attempt leaves in \<open>lastErr\<close> and in \<open>lastStatusCode\<close>.\<close>

fun failErr :: "reply \<Rightarrow> error" where
  "failErr (TransportError e) = Wrap e ''DO http client request''"
| "failErr (Response sc) = UnexpectedStatus sc"

fun failStatus :: "int \<Rightarrow> reply \<Rightarrow> int" where
  "failStatus s (TransportError e) = s"
| "failStatus s (Response sc) = sc"

text \<open>The request the specification describes: POST to the configured endpoint, the
  serialized batch as body, one header entry.\<close>

definition postRequest :: "webhookForwarder \<Rightarrow> string \<Rightarrow> request" where
  "postRequest w b =
     \<lparr> req_method = ''POST'', req_url = endpoint w, req_body = b,
       req_header = [(''Content-Type'', ''application/json'')] \<rparr>"

text \<open>The request as \<open>k\<close> calls in a row leave it, the first of them being call
  number \<open>n\<close>.\<close>

fun reqAfter :: "'r env \<Rightarrow> nat \<Rightarrow> request \<Rightarrow> nat \<Rightarrow> request" where
  "reqAfter env n req 0 = req"
| "reqAfter env n req (Suc k) = reqAfter env (Suc n) (bodyRead env n req) k"

text \<open>The events of one attempt whose retry counter is \<open>retries\<close>, of \<open>k\<close> attempts in a
  row starting at call number \<open>n\<close>, and the world after one attempt.\<close>

definition attemptEvents :: "webhookForwarder \<Rightarrow> request \<Rightarrow> int \<Rightarrow> event list" where
  "attemptEvents w req retries =
     (if retries \<ge> 1
      then [LogPostErr retries (retrySleepInterval w), Sleep (retrySleepInterval w)]
      else []) @ [HttpDo req]"

fun attemptsFrom ::
  "webhookForwarder \<Rightarrow> 'r env \<Rightarrow> nat \<Rightarrow> request \<Rightarrow> int \<Rightarrow> nat \<Rightarrow> event list" where
  "attemptsFrom w env n req retries 0 = []"
| "attemptsFrom w env n req retries (Suc k) =
     attemptEvents w req retries @
     attemptsFrom w env (Suc n) (bodyRead env n req) (retries + 1) k"

definition afterAttempt :: "webhookForwarder \<Rightarrow> request \<Rightarrow> int \<Rightarrow> world \<Rightarrow> world" where
  "afterAttempt w req retries wd =
     \<lparr> calls = Suc (calls wd), trace = trace wd @ attemptEvents w req retries \<rparr>"

text \<open>Reading a trace: the HTTP calls in it, the sleeps in it, and the events a step
  added.\<close>

fun isHttpDo :: "event \<Rightarrow> bool" where
  "isHttpDo (HttpDo r) = True"
| "isHttpDo ev = False"

definition httpAttempts :: "event list \<Rightarrow> nat" where
  "httpAttempts evs = length (filter isHttpDo evs)"

fun sleeps :: "event list \<Rightarrow> int list" where
  "sleeps [] = []"
| "sleeps (Sleep d # evs) = d # sleeps evs"
| "sleeps (ev # evs) = sleeps evs"

definition newEvents :: "world \<Rightarrow> world \<Rightarrow> event list" where
  "newEvents wd wd' = drop (length (trace wd)) (trace wd')"

text \<open>\<open>restOf req r\<close>: \<open>r\<close> is the request \<open>req\<close> with some of its body read. An event of
  the retry loop run on \<open>req\<close> is a call with such a request, a sleep or its log line.\<close>

definition restOf :: "request \<Rightarrow> request \<Rightarrow> bool" where
  "restOf req r =
     (req_method r = req_method req \<and> req_url r = req_url req \<and>
      req_header r = req_header req \<and>
      req_body r = drop (length (req_body req) - length (req_body r)) (req_body req))"

fun retryEvent :: "request \<Rightarrow> event \<Rightarrow> bool" where
  "retryEvent req (HttpDo r) = restOf req r"
| "retryEvent req (Sleep d) = True"
| "retryEvent req (LogPostErr n d) = True"
| "retryEvent req ev = False"

text \<open>The bodies of the requests handed to the client, in order.\<close>

fun sentBodies :: "event list \<Rightarrow> string list" where
  "sentBodies [] = []"
| "sentBodies (HttpDo r # evs) = req_body r # sentBodies evs"
| "sentBodies (ev # evs) = sentBodies evs"

text \<open>The errors sent to the error sink, in order, and the world at the moment
  \<open>forwardEvents\<close> calls \<open>forwardWithRetries\<close>.\<close>

fun errSink :: "event list \<Rightarrow> error list" where
  "errSink [] = []"
| "errSink (ErrCh e # evs) = e # errSink evs"
| "errSink (ev # evs) = errSink evs"

definition flushStart :: "webhookForwarder \<Rightarrow> bool \<Rightarrow> world \<Rightarrow> world" where
  "flushStart w byInterval wd =
     (if byInterval then emit [LogBatchInterval (batchInterval w)] wd else wd)"

text \<open>
  Reading a schedule and a stream of records: the records a schedule delivers, in
  order; the consecutive groups of \<open>n\<close> records of a stream and what is left after
  them; the state right after the size check at the top of the loop body; and the
  world after delivering a list of batches one after the other.
\<close>

fun received :: "'r ready list \<Rightarrow> 'r list" where
  "received [] = []"
| "received (RecvMsg ep # sched) = ep # received sched"
| "received (rdy # sched) = received sched"

fun fullBatches :: "nat \<Rightarrow> 'a list \<Rightarrow> 'a list list" where
  "fullBatches n xs =
     (if n = 0 \<or> length xs < n then [] else take n xs # fullBatches n (drop n xs))"

fun leftover :: "nat \<Rightarrow> 'a list \<Rightarrow> 'a list" where
  "leftover n xs = (if n = 0 \<or> length xs < n then xs else leftover n (drop n xs))"

definition afterSizeCheck :: "webhookForwarder \<Rightarrow> 'r env \<Rightarrow> 'r bgState \<Rightarrow> 'r bgState" where
  "afterSizeCheck w env st =
     (if batchSize w > 0 \<and> int (length (eventsPayload st)) \<ge> batchSize w
      then \<lparr> eventsPayload = [],
             deadline = (if batchInterval w > 0 then Some (batchInterval w) else deadline st),
             wld = forwardEvents w env (eventsPayload st) False (wld st) \<rparr>
      else st)"

definition deliverAll :: "webhookForwarder \<Rightarrow> 'r env \<Rightarrow> 'r list list \<Rightarrow> world \<Rightarrow> world" where
  "deliverAll w env bs wd = foldl (\<lambda>wd' b. forwardEvents w env b False wd') wd bs"

declare fullBatches.simps [simp del] leftover.simps [simp del]

text \<open>
  The part of \<open>forwardEvents\<close> past its guard: the call of \<open>forwardWithRetries\<close> and the
  report of its outcome. \<open>deliveries\<close> runs it on a list of batches, each with its flag.
\<close>

definition deliver ::
  "webhookForwarder \<Rightarrow> 'r env \<Rightarrow> 'r list \<Rightarrow> bool \<Rightarrow> world \<Rightarrow> world" where
  "deliver w env b byInterval wd =
     (case forwardWithRetries w env b (flushStart w byInterval wd) of
        (statusCode, Some err, wd2) \<Rightarrow>
          emit [ErrCh (Wrap err ''forward with retries exhausted'')] wd2
      | (statusCode, None, wd2) \<Rightarrow> emit [LogSuccess statusCode (length b)] wd2)"

definition deliveries ::
  "webhookForwarder \<Rightarrow> 'r env \<Rightarrow> ('r list \<times> bool) list \<Rightarrow> world \<Rightarrow> world" where
  "deliveries w env ps wd = foldl (\<lambda>wd' p. deliver w env (fst p) (snd p) wd') wd ps"

subsection \<open>Example inputs\<close>

text \<open>A configuration built by the constructor, a toy serializer for records that are
  already JSON text, and environments that answer the \<open>n\<close>-th HTTP call as a given
  function says. In them a call that is answered has read the whole body, and a call
  that ends in a transport error has read nothing of it.\<close>

definition demoFlags :: flags where
  "demoFlags = \<lparr> postEndpoint = ''http://localhost:9000/hook'',
                 flagBatchSize = 2, flagBatchInterval = 0 \<rparr>"

definition demoCfg :: webhookForwarder where
  "demoCfg = newWebhookForwarderHandler demoFlags"

fun joinWith :: "string \<Rightarrow> string list \<Rightarrow> string" where
  "joinWith sep [] = []"
| "joinWith sep [x] = x"
| "joinWith sep (x # y # ys) = x @ sep @ joinWith sep (y # ys)"

definition jsonArray :: "string list \<Rightarrow> string" where
  "jsonArray xs = ''['' @ joinWith '','' xs @ '']''"

definition demoEnv :: "(nat \<Rightarrow> reply) \<Rightarrow> string env" where
  "demoEnv replies =
     \<lparr> marshal = (\<lambda>b. Inr (jsonArray b)),
       url_error = (\<lambda>u. None),
       http_do = (\<lambda>n req. replies n),
       http_read = (\<lambda>n req. case replies n of
                                 Response sc \<Rightarrow> length (req_body req)
                               | TransportError e \<Rightarrow> 0) \<rparr>"

definition brokenMarshalEnv :: "string env" where
  "brokenMarshalEnv =
     \<lparr> marshal = (\<lambda>b. Inl (External ''json: unsupported value'')),
       url_error = (\<lambda>u. None),
       http_do = (\<lambda>n req. Response 200),
       http_read = (\<lambda>n req. length (req_body req)) \<rparr>"

definition badUrlEnv :: "string env" where
  "badUrlEnv =
     \<lparr> marshal = (\<lambda>b. Inr (jsonArray b)),
       url_error = (\<lambda>u. Some (External ''parse: missing protocol scheme'')),
       http_do = (\<lambda>n req. Response 200),
       http_read = (\<lambda>n req. length (req_body req)) \<rparr>"

definition always503Env :: "string env" where
  "always503Env = demoEnv (\<lambda>n. Response 503)"

definition refusedThenOkEnv :: "string env" where
  "refusedThenOkEnv =
     demoEnv (\<lambda>n. if n = 0 then TransportError (External ''connection refused'')
                   else Response 200)"

definition okEnv :: "string env" where
  "okEnv = demoEnv (\<lambda>n. Response 200)"

definition wd0 :: world where
  "wd0 = \<lparr> calls = 0, trace = [] \<rparr>"

definition zeroFlags :: flags where
  "zeroFlags = \<lparr> postEndpoint = ''http://localhost:9000/hook'',
                 flagBatchSize = 0, flagBatchInterval = 0 \<rparr>"

section \<open>Properties of the delivery client\<close>

lemma calls_emit [simp]: "calls (emit evs wd) = calls wd"
  by (simp add: emit_def)

lemma trace_emit [simp]: "trace (emit evs wd) = trace wd @ evs"
  by (simp add: emit_def)

lemma forwardLoop_exit:
  "retries > retryLimit w \<Longrightarrow> forwardLoop w env req retries le ls wd = (ls, le, wd)"
  by (subst forwardLoop.simps) simp

lemma forwardLoop_fail:
  assumes "retries \<le> retryLimit w" and "\<not> is2xx (http_do env (calls wd) req)"
  shows "forwardLoop w env req retries le ls wd =
         forwardLoop w env (bodyRead env (calls wd) req) (retries + 1)
           (Some (failErr (http_do env (calls wd) req)))
           (failStatus ls (http_do env (calls wd) req))
           (afterAttempt w req retries wd)"
  using assms
  by (subst forwardLoop.simps)
     (auto simp: Let_def clientDo_def is2xx_def afterAttempt_def attemptEvents_def
           split: reply.splits)

lemma forwardLoop_success:
  assumes "retries \<le> retryLimit w" and "http_do env (calls wd) req = Response sc"
    and "200 \<le> sc" and "sc < 300"
  shows "forwardLoop w env req retries le ls wd = (sc, None, afterAttempt w req retries wd)"
  using assms
  by (subst forwardLoop.simps)
     (auto simp: Let_def clientDo_def afterAttempt_def attemptEvents_def)

lemma forwardWithRetries_loop:
  "marshal env b = Inr body \<Longrightarrow> url_error env (endpoint w) = None \<Longrightarrow>
   forwardWithRetries w env b wd = forwardLoop w env (postRequest w body) 0 None 0 wd"
  by (simp add: forwardWithRetries_def newRequest_def headerAdd_def postRequest_def)

lemma calls_afterAttempt [simp]: "calls (afterAttempt w req r wd) = Suc (calls wd)"
  by (simp add: afterAttempt_def)

lemma trace_afterAttempt [simp]:
  "trace (afterAttempt w req r wd) = trace wd @ attemptEvents w req r"
  by (simp add: afterAttempt_def)

lemma reqAfter_1: "reqAfter env n req 1 = bodyRead env n req"
  by simp

lemma reqAfter_2: "reqAfter env n req 2 = bodyRead env (Suc n) (bodyRead env n req)"
  by (simp add: eval_nat_numeral)

lemma reqAfter_3:
  "reqAfter env n req 3 =
     bodyRead env (Suc (Suc n)) (bodyRead env (Suc n) (bodyRead env n req))"
  by (simp add: eval_nat_numeral)

lemma attemptsFrom_four:
  "attemptsFrom w env n req 0 4 =
     [HttpDo req,
      LogPostErr 1 (retrySleepInterval w), Sleep (retrySleepInterval w),
      HttpDo (reqAfter env n req 1),
      LogPostErr 2 (retrySleepInterval w), Sleep (retrySleepInterval w),
      HttpDo (reqAfter env n req 2),
      LogPostErr 3 (retrySleepInterval w), Sleep (retrySleepInterval w),
      HttpDo (reqAfter env n req 3)]"
  by (simp add: eval_nat_numeral attemptEvents_def)

lemma four_failures_run:
  assumes lim: "retryLimit w = 3"
    and ser: "marshal env b = Inr body"
    and url: "url_error env (endpoint w) = None"
    and fail: "\<forall>k<4. \<not> is2xx (http_do env (calls wd + k)
                              (reqAfter env (calls wd) (postRequest w body) k))"
  shows "forwardWithRetries w env b wd =
           (foldl failStatus 0
              (map (\<lambda>k. http_do env (calls wd + k)
                           (reqAfter env (calls wd) (postRequest w body) k)) [0, 1, 2, 3]),
            Some (failErr (http_do env (calls wd + 3)
                             (reqAfter env (calls wd) (postRequest w body) 3))),
            \<lparr> calls = calls wd + 4,
              trace = trace wd @ attemptsFrom w env (calls wd) (postRequest w body) 0 4 \<rparr>)"
proof -
  let ?q0 = "postRequest w body"
  let ?q1 = "bodyRead env (calls wd) ?q0"
  let ?q2 = "bodyRead env (Suc (calls wd)) ?q1"
  let ?q3 = "bodyRead env (Suc (Suc (calls wd))) ?q2"
  let ?r0 = "http_do env (calls wd) ?q0"
  let ?r1 = "http_do env (Suc (calls wd)) ?q1"
  let ?r2 = "http_do env (Suc (Suc (calls wd))) ?q2"
  let ?r3 = "http_do env (Suc (Suc (Suc (calls wd)))) ?q3"
  let ?w1 = "afterAttempt w ?q0 0 wd"
  let ?w2 = "afterAttempt w ?q1 1 ?w1"
  let ?w3 = "afterAttempt w ?q2 2 ?w2"
  let ?w4 = "afterAttempt w ?q3 3 ?w3"
  have fk: "\<not> is2xx (http_do env (calls wd + k) (reqAfter env (calls wd) ?q0 k))"
    if "k < 4" for k
    using fail that by blast
  have f0: "\<not> is2xx ?r0" using fk [of 0] by simp
  have f1: "\<not> is2xx ?r1" using fk [of 1] by simp
  have f2: "\<not> is2xx ?r2" using fk [of 2] by (simp add: reqAfter_2)
  have f3: "\<not> is2xx ?r3" using fk [of 3] by (simp add: reqAfter_3 eval_nat_numeral)
  have "forwardWithRetries w env b wd = forwardLoop w env ?q0 0 None 0 wd"
    by (rule forwardWithRetries_loop [OF ser url])
  also have "\<dots> = forwardLoop w env ?q1 1 (Some (failErr ?r0)) (failStatus 0 ?r0) ?w1"
    using forwardLoop_fail [of 0 w env wd ?q0 None 0] f0 lim by simp
  also have "\<dots> = forwardLoop w env ?q2 2 (Some (failErr ?r1))
                       (failStatus (failStatus 0 ?r0) ?r1) ?w2"
    using forwardLoop_fail [of 1 w env ?w1 ?q1] f1 lim by simp
  also have "\<dots> = forwardLoop w env ?q3 3 (Some (failErr ?r2))
                       (failStatus (failStatus (failStatus 0 ?r0) ?r1) ?r2) ?w3"
    using forwardLoop_fail [of 2 w env ?w2 ?q2] f2 lim by simp
  also have "\<dots> = forwardLoop w env (bodyRead env (Suc (Suc (Suc (calls wd)))) ?q3) 4
                       (Some (failErr ?r3))
                       (failStatus (failStatus (failStatus (failStatus 0 ?r0) ?r1) ?r2) ?r3)
                       ?w4"
    using forwardLoop_fail [of 3 w env ?w3 ?q3] f3 lim by simp
  also have "\<dots> = (failStatus (failStatus (failStatus (failStatus 0 ?r0) ?r1) ?r2) ?r3,
                      Some (failErr ?r3), ?w4)"
    using lim by (simp add: forwardLoop_exit)
  finally show ?thesis
    by (simp add: afterAttempt_def attemptsFrom_four reqAfter_2 reqAfter_3
          attemptEvents_def eval_nat_numeral)
qed

text \<open>
  Claim C1. With \<open>retryLimit = 3\<close>, when the batch serializes, the request can be built
  and each of the four replies is a failure (a transport error or a status outside
  \<open>[200,300)\<close>), \<open>forwardWithRetries\<close> makes exactly four HTTP calls, sleeps
  \<open>retrySleepInterval\<close> before the second, third and fourth and not before the first, and
  returns the last status seen (transport errors leave it alone, so it is 0 when all four
  were transport errors) with the error of the fourth attempt. Each call is made with the
  one request, in the state the calls before it left it in.
\<close>

theorem C1_retry_bound_all_fail:
  assumes lim: "retryLimit w = 3"
    and ser: "marshal env b = Inr body"
    and url: "url_error env (endpoint w) = None"
    and fail: "\<forall>k<4. \<not> is2xx (http_do env (calls wd + k)
                              (reqAfter env (calls wd) (postRequest w body) k))"
  shows "forwardWithRetries w env b wd =
           (foldl failStatus 0
              (map (\<lambda>k. http_do env (calls wd + k)
                           (reqAfter env (calls wd) (postRequest w body) k)) [0, 1, 2, 3]),
            Some (failErr (http_do env (calls wd + 3)
                             (reqAfter env (calls wd) (postRequest w body) 3))),
            \<lparr> calls = calls wd + 4,
              trace = trace wd @
                [HttpDo (postRequest w body),
                 LogPostErr 1 (retrySleepInterval w), Sleep (retrySleepInterval w),
                 HttpDo (reqAfter env (calls wd) (postRequest w body) 1),
                 LogPostErr 2 (retrySleepInterval w), Sleep (retrySleepInterval w),
                 HttpDo (reqAfter env (calls wd) (postRequest w body) 2),
                 LogPostErr 3 (retrySleepInterval w), Sleep (retrySleepInterval w),
                 HttpDo (reqAfter env (calls wd) (postRequest w body) 3)] \<rparr>)
         \<and> ((\<forall>k<4. \<exists>e. http_do env (calls wd + k)
                          (reqAfter env (calls wd) (postRequest w body) k) = TransportError e)
              \<longrightarrow> fst (forwardWithRetries w env b wd) = 0)"
proof -
  let ?r = "\<lambda>k. http_do env (calls wd + k) (reqAfter env (calls wd) (postRequest w body) k)"
  note run = four_failures_run [OF lim ser url fail]
  have zero: "fst (forwardWithRetries w env b wd) = 0"
    if t: "\<forall>k<4. \<exists>e. ?r k = TransportError e"
  proof -
    have tk: "\<exists>e. ?r k = TransportError e" if "k < 4" for k
      using t that by blast
    from tk [of 0] tk [of 1] tk [of 2] tk [of 3] show ?thesis
      unfolding run by auto
  qed
  show ?thesis
    using zero by (simp add: run attemptsFrom_four)
qed

lemma sleeps_append [simp]: "sleeps (xs @ ys) = sleeps xs @ sleeps ys"
  by (induction xs rule: sleeps.induct) simp_all

lemma httpAttempts_append [simp]: "httpAttempts (xs @ ys) = httpAttempts xs + httpAttempts ys"
  by (simp add: httpAttempts_def)

lemma httpAttempts_attemptsFrom: "httpAttempts (attemptsFrom w env n req r k) = k"
  by (induction k arbitrary: n req r) (simp_all add: attemptEvents_def httpAttempts_def)

lemma sleeps_attemptsFrom_retry:
  "1 \<le> r \<Longrightarrow> sleeps (attemptsFrom w env n req r k) = replicate k (retrySleepInterval w)"
  by (induction k arbitrary: n req r) (simp_all add: attemptEvents_def)

lemma sleeps_attemptsFrom_first:
  "sleeps (attemptsFrom w env n req 0 (Suc k)) = replicate k (retrySleepInterval w)"
  by (simp add: attemptEvents_def sleeps_attemptsFrom_retry)

lemma attemptsFrom_nonempty: "attemptsFrom w env n req r (Suc k) \<noteq> []"
  by (simp add: attemptEvents_def)

lemma last_attemptsFrom:
  "last (attemptsFrom w env n req r (Suc k)) = HttpDo (reqAfter env n req k)"
proof (induction k arbitrary: n req r)
  case 0
  show ?case by (simp add: attemptEvents_def)
next
  case (Suc k)
  have "attemptsFrom w env n req r (Suc (Suc k)) =
        attemptEvents w req r @ attemptsFrom w env (Suc n) (bodyRead env n req) (r + 1) (Suc k)"
    by (rule attemptsFrom.simps(2))
  then have "last (attemptsFrom w env n req r (Suc (Suc k))) =
             last (attemptsFrom w env (Suc n) (bodyRead env n req) (r + 1) (Suc k))"
    using attemptsFrom_nonempty [of w env "Suc n" "bodyRead env n req" "r + 1" k]
    by (simp only: last_append if_False)
  then show ?case using Suc.IH [of "Suc n" "bodyRead env n req" "r + 1"] by simp
qed

lemma forwardLoop_first_success:
  "retries + int k \<le> retryLimit w \<Longrightarrow>
   \<forall>i<k. \<not> is2xx (http_do env (calls wd + i) (reqAfter env (calls wd) req i)) \<Longrightarrow>
   http_do env (calls wd + k) (reqAfter env (calls wd) req k) = Response sc \<Longrightarrow>
   200 \<le> sc \<Longrightarrow> sc < 300 \<Longrightarrow>
   forwardLoop w env req retries le ls wd =
     (sc, None, \<lparr> calls = calls wd + k + 1,
                  trace = trace wd @ attemptsFrom w env (calls wd) req retries (Suc k) \<rparr>)"
proof (induction k arbitrary: retries le ls wd req)
  case 0
  then show ?case
    by (simp add: forwardLoop_success afterAttempt_def)
next
  case (Suc k)
  let ?wd1 = "afterAttempt w req retries wd"
  let ?req1 = "bodyRead env (calls wd) req"
  from Suc.prems(2) have f0: "\<not> is2xx (http_do env (calls wd) req)" by force
  have rest: "\<forall>i<k. \<not> is2xx (http_do env (calls ?wd1 + i) (reqAfter env (calls ?wd1) ?req1 i))"
  proof (intro allI impI)
    fix i assume "i < k"
    then have "Suc i < Suc k" by simp
    with Suc.prems(2)
    have "\<not> is2xx (http_do env (calls wd + Suc i) (reqAfter env (calls wd) req (Suc i)))"
      by blast
    then show "\<not> is2xx (http_do env (calls ?wd1 + i) (reqAfter env (calls ?wd1) ?req1 i))"
      by simp
  qed
  have ok: "http_do env (calls ?wd1 + k) (reqAfter env (calls ?wd1) ?req1 k) = Response sc"
    using Suc.prems(3) by simp
  have lim: "retries \<le> retryLimit w" "retries + 1 + int k \<le> retryLimit w"
    using Suc.prems(1) by simp_all
  have "forwardLoop w env req retries le ls wd =
        forwardLoop w env ?req1 (retries + 1)
          (Some (failErr (http_do env (calls wd) req)))
          (failStatus ls (http_do env (calls wd) req)) ?wd1"
    by (rule forwardLoop_fail [OF lim(1) f0])
  also have "\<dots> = (sc, None, \<lparr> calls = calls ?wd1 + k + 1,
                trace = trace ?wd1 @ attemptsFrom w env (calls ?wd1) ?req1 (retries + 1) (Suc k) \<rparr>)"
    by (rule Suc.IH [OF lim(2) rest ok Suc.prems(4) Suc.prems(5)])
  finally show ?case by simp
qed

text \<open>
  Claim C4. When the attempt number \<open>k\<close> (counted from 0, within the retry budget) is the
  first to get a status in \<open>[200,300)\<close>, \<open>forwardWithRetries\<close> returns that status and no
  error right after that attempt: \<open>k + 1\<close> HTTP calls and \<open>k\<close> sleeps in all, the last
  event being that call, whatever budget is left.
\<close>

theorem C4_success_short_circuit:
  assumes ser: "marshal env b = Inr body"
    and url: "url_error env (endpoint w) = None"
    and budget: "int k \<le> retryLimit w"
    and fail: "\<forall>i<k. \<not> is2xx (http_do env (calls wd + i)
                              (reqAfter env (calls wd) (postRequest w body) i))"
    and ok: "http_do env (calls wd + k) (reqAfter env (calls wd) (postRequest w body) k)
               = Response sc"
    and range: "200 \<le> sc \<and> sc < 300"
  shows "forwardWithRetries w env b wd =
           (sc, None,
            \<lparr> calls = calls wd + k + 1,
              trace = trace wd @
                attemptsFrom w env (calls wd) (postRequest w body) 0 (Suc k) \<rparr>)
         \<and> httpAttempts (attemptsFrom w env (calls wd) (postRequest w body) 0 (Suc k)) = k + 1
         \<and> sleeps (attemptsFrom w env (calls wd) (postRequest w body) 0 (Suc k)) =
             replicate k (retrySleepInterval w)
         \<and> last (attemptsFrom w env (calls wd) (postRequest w body) 0 (Suc k)) =
             HttpDo (reqAfter env (calls wd) (postRequest w body) k)"
proof -
  have "forwardWithRetries w env b wd = forwardLoop w env (postRequest w body) 0 None 0 wd"
    by (rule forwardWithRetries_loop [OF ser url])
  also have "\<dots> = (sc, None,
            \<lparr> calls = calls wd + k + 1,
              trace = trace wd @
                attemptsFrom w env (calls wd) (postRequest w body) 0 (Suc k) \<rparr>)"
    using budget fail ok range by (intro forwardLoop_first_success) simp_all
  finally show ?thesis
    by (simp only: httpAttempts_attemptsFrom sleeps_attemptsFrom_first last_attemptsFrom) simp
qed

lemma drop_to_length: "drop (length xs - length (drop j xs)) xs = drop j xs"
  by (cases "j \<le> length xs") simp_all

lemma restOf_iff: "restOf req r \<longleftrightarrow> (\<exists>j. r = req\<lparr> req_body := drop j (req_body req) \<rparr>)"
proof
  assume a: "restOf req r"
  then have "r = req\<lparr> req_body := drop (length (req_body req) - length (req_body r))
                                       (req_body req) \<rparr>"
    by (simp add: restOf_def)
  then show "\<exists>j. r = req\<lparr> req_body := drop j (req_body req) \<rparr>" ..
next
  assume "\<exists>j. r = req\<lparr> req_body := drop j (req_body req) \<rparr>"
  then obtain j where "r = req\<lparr> req_body := drop j (req_body req) \<rparr>" ..
  then show "restOf req r"
    using drop_to_length [of "req_body req" j] by (simp add: restOf_def)
qed

lemma restOf_refl: "restOf req req"
  by (simp add: restOf_def)

lemma restOf_bodyRead: "restOf req r \<Longrightarrow> restOf req (bodyRead env n r)"
  unfolding restOf_iff by (auto simp: bodyRead_def)

lemma forwardLoop_events:
  "restOf req0 req \<Longrightarrow>
   \<exists>evs. trace (snd (snd (forwardLoop w env req r le ls wd))) = trace wd @ evs
         \<and> (\<forall>ev\<in>set evs. retryEvent req0 ev)"
proof (induction "nat (retryLimit w + 1 - r)" arbitrary: r le ls wd req)
  case 0
  then have "r > retryLimit w" by simp
  then show ?case by (simp add: forwardLoop_exit)
next
  case (Suc n)
  then have lim: "r \<le> retryLimit w" by simp
  let ?wd1 = "afterAttempt w req r wd"
  have ev1: "\<forall>ev\<in>set (attemptEvents w req r). retryEvent req0 ev"
    using Suc.prems by (auto simp: attemptEvents_def)
  show ?case
  proof (cases "is2xx (http_do env (calls wd) req)")
    case True
    then obtain sc where "http_do env (calls wd) req = Response sc" "200 \<le> sc" "sc < 300"
      by (auto simp: is2xx_def split: reply.splits)
    then have "forwardLoop w env req r le ls wd = (sc, None, ?wd1)"
      using lim by (simp add: forwardLoop_success)
    then show ?thesis using ev1 by simp
  next
    case False
    have n: "n = nat (retryLimit w + 1 - (r + 1))" using Suc(2) by simp
    from Suc(1) [OF n restOf_bodyRead [OF Suc.prems]] obtain evs where
      evs: "trace (snd (snd (forwardLoop w env (bodyRead env (calls wd) req) (r + 1)
                     (Some (failErr (http_do env (calls wd) req)))
                     (failStatus ls (http_do env (calls wd) req)) ?wd1))) = trace ?wd1 @ evs"
           "\<forall>ev\<in>set evs. retryEvent req0 ev"
      by blast
    have "trace (snd (snd (forwardLoop w env req r le ls wd))) =
          trace wd @ (attemptEvents w req r @ evs)"
      using forwardLoop_fail [OF lim False] evs(1) by simp
    moreover have "\<forall>ev\<in>set (attemptEvents w req r @ evs). retryEvent req0 ev"
      using ev1 evs(2) by auto
    ultimately show ?thesis by blast
  qed
qed

lemma forwardWithRetries_events:
  "\<exists>evs. trace (snd (snd (forwardWithRetries w env b wd))) = trace wd @ evs
         \<and> (\<forall>ev\<in>set evs. \<exists>body. marshal env b = Inr body \<and> retryEvent (postRequest w body) ev)"
proof (cases "marshal env b")
  case (Inl e)
  then show ?thesis by (simp add: forwardWithRetries_def)
next
  case (Inr body)
  show ?thesis
  proof (cases "url_error env (endpoint w)")
    case (Some e)
    then show ?thesis using Inr by (simp add: forwardWithRetries_def newRequest_def)
  next
    case None
    from forwardLoop_events [OF restOf_refl, of w env "postRequest w body" 0 None 0 wd]
    show ?thesis
      using Inr by (auto simp: forwardWithRetries_loop [OF Inr None])
  qed
qed

lemmas demo_defs =
  demoFlags_def demoCfg_def newWebhookForwarderHandler_def second_def jsonArray_def
  demoEnv_def brokenMarshalEnv_def badUrlEnv_def wd0_def postRequest_def

lemmas run_defs =
  forwardWithRetries_def newRequest_def headerAdd_def forwardLoop.simps clientDo_def
  bodyRead_def emit_def Let_def

lemma demo503_run:
  "forwardWithRetries demoCfg always503Env [''1''] wd0 =
     (503, Some (UnexpectedStatus 503),
      \<lparr> calls = 4,
        trace = [HttpDo (postRequest demoCfg ''[1]''),
                 LogPostErr 1 2000000000, Sleep 2000000000,
                 HttpDo ((postRequest demoCfg ''[1]'')\<lparr> req_body := [] \<rparr>),
                 LogPostErr 2 2000000000, Sleep 2000000000,
                 HttpDo ((postRequest demoCfg ''[1]'')\<lparr> req_body := [] \<rparr>),
                 LogPostErr 3 2000000000, Sleep 2000000000,
                 HttpDo ((postRequest demoCfg ''[1]'')\<lparr> req_body := [] \<rparr>)] \<rparr>)"
  by (simp add: demo_defs always503Env_def run_defs)

lemma demoRetry_run:
  "forwardWithRetries demoCfg refusedThenOkEnv [''1'', ''2''] wd0 =
     (200, None,
      \<lparr> calls = 2,
        trace = [HttpDo (postRequest demoCfg ''[1,2]''),
                 LogPostErr 1 2000000000, Sleep 2000000000,
                 HttpDo (postRequest demoCfg ''[1,2]'')] \<rparr>)"
  by (simp add: demo_defs refusedThenOkEnv_def run_defs)

theorem C1_retry_bound_all_fail_witness:
  "retryLimit demoCfg = 3 \<and>
   marshal always503Env [''1''] = Inr ''[1]'' \<and>
   url_error always503Env (endpoint demoCfg) = None \<and>
   \<not> is2xx (http_do always503Env (calls wd0 + 0)
               (reqAfter always503Env (calls wd0) (postRequest demoCfg ''[1]'') 0)) \<and>
   \<not> is2xx (http_do always503Env (calls wd0 + 1)
               (reqAfter always503Env (calls wd0) (postRequest demoCfg ''[1]'') 1)) \<and>
   \<not> is2xx (http_do always503Env (calls wd0 + 2)
               (reqAfter always503Env (calls wd0) (postRequest demoCfg ''[1]'') 2)) \<and>
   \<not> is2xx (http_do always503Env (calls wd0 + 3)
               (reqAfter always503Env (calls wd0) (postRequest demoCfg ''[1]'') 3)) \<and>
   forwardWithRetries demoCfg always503Env [''1''] wd0 =
     (503, Some (UnexpectedStatus 503),
      \<lparr> calls = 4,
        trace = [HttpDo (postRequest demoCfg ''[1]''),
                 LogPostErr 1 2000000000, Sleep 2000000000,
                 HttpDo ((postRequest demoCfg ''[1]'')\<lparr> req_body := [] \<rparr>),
                 LogPostErr 2 2000000000, Sleep 2000000000,
                 HttpDo ((postRequest demoCfg ''[1]'')\<lparr> req_body := [] \<rparr>),
                 LogPostErr 3 2000000000, Sleep 2000000000,
                 HttpDo ((postRequest demoCfg ''[1]'')\<lparr> req_body := [] \<rparr>)] \<rparr>)"
proof -
  let ?q = "\<lambda>k. reqAfter always503Env (calls wd0) (postRequest demoCfg ''[1]'') k"
  have h1: "retryLimit demoCfg = 3" by (simp add: demo_defs)
  have h2: "marshal always503Env [''1''] = Inr ''[1]''"
    by (simp add: always503Env_def demo_defs)
  have h3: "url_error always503Env (endpoint demoCfg) = None"
    by (simp add: always503Env_def demo_defs)
  have r: "http_do always503Env n q = Response 503" for n q
    by (simp add: always503Env_def demoEnv_def)
  have h4: "\<forall>k<4. \<not> is2xx (http_do always503Env (calls wd0 + k) (?q k))"
    by (simp add: r is2xx_def)
  have d: "retrySleepInterval demoCfg = 2000000000" by (simp add: demo_defs)
  have q: "bodyRead always503Env 0 (postRequest demoCfg ''[1]'') =
             (postRequest demoCfg ''[1]'')\<lparr> req_body := [] \<rparr>"
          "reqAfter always503Env 0 (postRequest demoCfg ''[1]'') 2 =
             (postRequest demoCfg ''[1]'')\<lparr> req_body := [] \<rparr>"
          "reqAfter always503Env 0 (postRequest demoCfg ''[1]'') 3 =
             (postRequest demoCfg ''[1]'')\<lparr> req_body := [] \<rparr>"
    by (simp_all add: eval_nat_numeral bodyRead_def always503Env_def demoEnv_def
          postRequest_def)
  have c: "calls wd0 = 0" "trace wd0 = []" by (simp_all add: wd0_def)
  show ?thesis
    using C1_retry_bound_all_fail [OF h1 h2 h3 h4] h1 h2 h3
    by (simp add: d q r c is2xx_def)
qed

theorem C4_success_short_circuit_witness:
  "marshal refusedThenOkEnv [''1'', ''2''] = Inr ''[1,2]'' \<and>
   url_error refusedThenOkEnv (endpoint demoCfg) = None \<and>
   int 1 \<le> retryLimit demoCfg \<and>
   \<not> is2xx (http_do refusedThenOkEnv (calls wd0 + 0)
               (reqAfter refusedThenOkEnv (calls wd0) (postRequest demoCfg ''[1,2]'') 0)) \<and>
   http_do refusedThenOkEnv (calls wd0 + 1)
     (reqAfter refusedThenOkEnv (calls wd0) (postRequest demoCfg ''[1,2]'') 1) = Response 200 \<and>
   forwardWithRetries demoCfg refusedThenOkEnv [''1'', ''2''] wd0 =
     (200, None,
      \<lparr> calls = 2,
        trace = [HttpDo (postRequest demoCfg ''[1,2]''),
                 LogPostErr 1 2000000000, Sleep 2000000000,
                 HttpDo (postRequest demoCfg ''[1,2]'')] \<rparr>)"
proof -
  let ?env = refusedThenOkEnv
  let ?q = "\<lambda>k. reqAfter ?env (calls wd0) (postRequest demoCfg ''[1,2]'') k"
  have h1: "marshal ?env [''1'', ''2''] = Inr ''[1,2]''"
    by (simp add: refusedThenOkEnv_def demo_defs)
  have h2: "url_error ?env (endpoint demoCfg) = None"
    by (simp add: refusedThenOkEnv_def demo_defs)
  have h3: "int 1 \<le> retryLimit demoCfg" by (simp add: demo_defs)
  have c: "calls wd0 = 0" "trace wd0 = []" by (simp_all add: wd0_def)
  have h4: "\<forall>i<1. \<not> is2xx (http_do ?env (calls wd0 + i) (?q i))"
    by (simp add: refusedThenOkEnv_def demoEnv_def c is2xx_def)
  have h5: "http_do ?env (calls wd0 + 1) (?q 1) = Response 200"
    by (simp add: refusedThenOkEnv_def demoEnv_def)
  have h6: "(200::int) \<le> 200 \<and> (200::int) < 300" by simp
  have d: "retrySleepInterval demoCfg = 2000000000" by (simp add: demo_defs)
  have q: "bodyRead ?env 0 (postRequest demoCfg ''[1,2]'') = postRequest demoCfg ''[1,2]''"
    by (simp add: bodyRead_def refusedThenOkEnv_def demoEnv_def)
  show ?thesis
    using C4_success_short_circuit [OF h1 h2 h3 h4 h5 h6] h1 h2 h3 h4 h5
    by (simp add: d c q attemptEvents_def)
qed

lemma sentBodies_append [simp]: "sentBodies (xs @ ys) = sentBodies xs @ sentBodies ys"
  by (induction xs rule: sentBodies.induct) simp_all


text \<open>
  Claim C5. A batch that does not serialize, and a batch for which the request cannot
  be built (the endpoint URL is rejected), make \<open>forwardWithRetries\<close> return status 0
  and the error at once: the world is returned as it was, so no HTTP call and no sleep
  took place.
\<close>

theorem C5_fatal_short_circuit:
  assumes "marshal env1 b1 = Inl e1"
    and "marshal env2 b2 = Inr body" and "url_error env2 (endpoint w2) = Some e2"
  shows "forwardWithRetries w1 env1 b1 wd1 = (0, Some (Wrap e1 ''marshal''), wd1) \<and>
         forwardWithRetries w2 env2 b2 wd2 = (0, Some (Wrap e2 ''new HTTP request''), wd2)"
  using assms by (simp add: forwardWithRetries_def newRequest_def)

theorem C5_fatal_short_circuit_witness:
  "marshal brokenMarshalEnv [''1''] = Inl (External ''json: unsupported value'') \<and>
   marshal badUrlEnv [''1''] = Inr ''[1]'' \<and>
   url_error badUrlEnv (endpoint demoCfg) = Some (External ''parse: missing protocol scheme'') \<and>
   forwardWithRetries demoCfg brokenMarshalEnv [''1''] wd0 =
     (0, Some (Wrap (External ''json: unsupported value'') ''marshal''), wd0) \<and>
   forwardWithRetries demoCfg badUrlEnv [''1''] wd0 =
     (0, Some (Wrap (External ''parse: missing protocol scheme'') ''new HTTP request''), wd0)"
proof -
  have h1: "marshal brokenMarshalEnv [''1''] = Inl (External ''json: unsupported value'')"
    by (simp add: brokenMarshalEnv_def)
  have h2: "marshal badUrlEnv [''1''] = Inr ''[1]''"
    by (simp add: badUrlEnv_def jsonArray_def)
  have h3: "url_error badUrlEnv (endpoint demoCfg) =
            Some (External ''parse: missing protocol scheme'')"
    by (simp add: badUrlEnv_def)
  from C5_fatal_short_circuit [OF h1 h2 h3, of demoCfg wd0 wd0] h1 h2 h3
  show ?thesis by simp
qed

section \<open>Properties of \<open>forwardEvents\<close>\<close>

lemma errSink_append [simp]: "errSink (xs @ ys) = errSink xs @ errSink ys"
  by (induction xs rule: errSink.induct) simp_all

lemma errSink_retryEvents: "\<forall>ev\<in>set evs. retryEvent req ev \<Longrightarrow> errSink evs = []"
  by (induction evs rule: errSink.induct) simp_all

lemma newEvents_append [simp]: "trace wd' = trace wd @ evs \<Longrightarrow> newEvents wd wd' = evs"
  by (simp add: newEvents_def)

lemma forwardWithRetries_no_sink:
  "\<exists>evs. trace (snd (snd (forwardWithRetries w env b wd))) = trace wd @ evs
         \<and> errSink evs = []"
proof -
  from forwardWithRetries_events [of w env b wd] obtain evs where
    evs: "trace (snd (snd (forwardWithRetries w env b wd))) = trace wd @ evs"
         "\<forall>ev\<in>set evs. \<exists>body. marshal env b = Inr body \<and> retryEvent (postRequest w body) ev"
    by blast
  have "errSink evs = []"
  proof (cases "marshal env b")
    case (Inl e)
    with evs(2) have "evs = []" by (cases evs) auto
    then show ?thesis by simp
  next
    case (Inr body)
    with evs(2) have "\<forall>ev\<in>set evs. retryEvent (postRequest w body) ev" by auto
    then show ?thesis by (rule errSink_retryEvents)
  qed
  with evs(1) show ?thesis by blast
qed

lemma forwardEvents_empty: "forwardEvents w env [] byInterval wd = wd"
  by (simp add: forwardEvents_def)

lemma forwardEvents_nonempty:
  "b \<noteq> [] \<Longrightarrow>
   forwardEvents w env b byInterval wd =
     (case forwardWithRetries w env b (flushStart w byInterval wd) of
        (statusCode, Some err, wd2) \<Rightarrow>
          emit [ErrCh (Wrap err ''forward with retries exhausted'')] wd2
      | (statusCode, None, wd2) \<Rightarrow> emit [LogSuccess statusCode (length b)] wd2)"
  by (simp add: forwardEvents_def flushStart_def Let_def)

lemma forwardEvents_trace:
  assumes "b \<noteq> []"
  shows "\<exists>evs ev. trace (forwardEvents w env b byInterval wd) = trace wd @ evs @ [ev]
           \<and> errSink (evs @ [ev]) =
               (case fst (snd (forwardWithRetries w env b (flushStart w byInterval wd))) of
                  Some e \<Rightarrow> [Wrap e ''forward with retries exhausted'']
                | None \<Rightarrow> [])"
proof -
  let ?wd1 = "flushStart w byInterval wd"
  obtain sc err wd2 where r: "forwardWithRetries w env b ?wd1 = (sc, err, wd2)"
    by (cases "forwardWithRetries w env b ?wd1") auto
  from forwardWithRetries_no_sink [of w env b ?wd1] r obtain evs where
    evs: "trace wd2 = trace ?wd1 @ evs" "errSink evs = []" by auto
  obtain pre where pre: "trace ?wd1 = trace wd @ pre" "errSink pre = []"
    by (cases byInterval) (simp_all add: flushStart_def)
  show ?thesis
  proof (cases err)
    case None
    then have "trace (forwardEvents w env b byInterval wd) =
               trace wd @ (pre @ evs) @ [LogSuccess sc (length b)]"
      using assms r evs pre by (simp add: forwardEvents_nonempty)
    moreover have "errSink ((pre @ evs) @ [LogSuccess sc (length b)]) = []"
      using evs pre by simp
    ultimately show ?thesis using r None by (metis fst_conv snd_conv option.simps(4))
  next
    case (Some e)
    then have "trace (forwardEvents w env b byInterval wd) =
               trace wd @ (pre @ evs) @ [ErrCh (Wrap e ''forward with retries exhausted'')]"
      using assms r evs pre by (simp add: forwardEvents_nonempty)
    moreover have "errSink ((pre @ evs) @ [ErrCh (Wrap e ''forward with retries exhausted'')])
                   = [Wrap e ''forward with retries exhausted'']"
      using evs pre by simp
    ultimately show ?thesis using r Some by (metis fst_conv snd_conv option.simps(5))
  qed
qed

text \<open>
  Claim C6, as amended. For a non-empty batch, every error \<open>forwardWithRetries\<close> returns
  is sent to the error sink once, wrapped with \<open>forward with retries exhausted\<close>, and
  nothing else is sent; when it returns no error nothing is sent. This holds for the
  fatal errors too: a serialization failure and a request-construction failure reach the
  sink with that same wrapping, after zero HTTP calls; and for the retry loop run dry,
  where under \<open>retryLimit = 3\<close> the error of the fourth failed attempt is the one sent.
\<close>

theorem C6_every_error_is_wrapped:
  assumes "b \<noteq> []"
  shows "errSink (newEvents wd (forwardEvents w env b byInterval wd)) =
           (case fst (snd (forwardWithRetries w env b (flushStart w byInterval wd))) of
              Some e \<Rightarrow> [Wrap e ''forward with retries exhausted'']
            | None \<Rightarrow> [])
         \<and> (\<forall>e0. marshal env b = Inl e0 \<longrightarrow>
               errSink (newEvents wd (forwardEvents w env b byInterval wd)) =
                 [Wrap (Wrap e0 ''marshal'') ''forward with retries exhausted''] \<and>
               httpAttempts (newEvents wd (forwardEvents w env b byInterval wd)) = 0)
         \<and> (\<forall>body e0. marshal env b = Inr body \<and> url_error env (endpoint w) = Some e0 \<longrightarrow>
               errSink (newEvents wd (forwardEvents w env b byInterval wd)) =
                 [Wrap (Wrap e0 ''new HTTP request'') ''forward with retries exhausted''] \<and>
               httpAttempts (newEvents wd (forwardEvents w env b byInterval wd)) = 0)
         \<and> (\<forall>body. retryLimit w = 3 \<and> marshal env b = Inr body \<and>
                  url_error env (endpoint w) = None \<and>
                  (\<forall>k<4. \<not> is2xx (http_do env (calls wd + k)
                                    (reqAfter env (calls wd) (postRequest w body) k))) \<longrightarrow>
               errSink (newEvents wd (forwardEvents w env b byInterval wd)) =
                 [Wrap (failErr (http_do env (calls wd + 3)
                                   (reqAfter env (calls wd) (postRequest w body) 3)))
                       ''forward with retries exhausted''])"
proof -
  let ?wd1 = "flushStart w byInterval wd"
  let ?sink = "errSink (newEvents wd (forwardEvents w env b byInterval wd))"
  let ?calls = "httpAttempts (newEvents wd (forwardEvents w env b byInterval wd))"
  have gen: "?sink =
           (case fst (snd (forwardWithRetries w env b ?wd1)) of
              Some e \<Rightarrow> [Wrap e ''forward with retries exhausted'']
            | None \<Rightarrow> [])"
    using forwardEvents_trace [OF assms, of w env byInterval wd]
    by (auto simp: newEvents_def)
  have ser: "?sink = [Wrap (Wrap e0 ''marshal'') ''forward with retries exhausted''] \<and>
             ?calls = 0"
    if m: "marshal env b = Inl e0" for e0
  proof -
    have "forwardEvents w env b byInterval wd =
          emit [ErrCh (Wrap (Wrap e0 ''marshal'') ''forward with retries exhausted'')] ?wd1"
      using assms m by (simp add: forwardEvents_nonempty forwardWithRetries_def)
    then show ?thesis
      by (simp add: newEvents_def flushStart_def httpAttempts_def)
  qed
  have url: "?sink = [Wrap (Wrap e0 ''new HTTP request'') ''forward with retries exhausted'']
             \<and> ?calls = 0"
    if m: "marshal env b = Inr body \<and> url_error env (endpoint w) = Some e0" for body e0
  proof -
    have "forwardEvents w env b byInterval wd =
          emit [ErrCh (Wrap (Wrap e0 ''new HTTP request'') ''forward with retries exhausted'')]
            ?wd1"
      using assms m by (simp add: forwardEvents_nonempty forwardWithRetries_def newRequest_def)
    then show ?thesis
      by (simp add: newEvents_def flushStart_def httpAttempts_def)
  qed
  have exh: "?sink = [Wrap (failErr (http_do env (calls wd + 3)
                                      (reqAfter env (calls wd) (postRequest w body) 3)))
                           ''forward with retries exhausted'']"
    if m: "retryLimit w = 3 \<and> marshal env b = Inr body \<and>
           url_error env (endpoint w) = None \<and>
           (\<forall>k<4. \<not> is2xx (http_do env (calls wd + k)
                             (reqAfter env (calls wd) (postRequest w body) k)))" for body
  proof -
    have c: "calls ?wd1 = calls wd" by (simp add: flushStart_def)
    have "\<forall>k<4. \<not> is2xx (http_do env (calls ?wd1 + k)
                          (reqAfter env (calls ?wd1) (postRequest w body) k))"
      using m c by simp
    from four_failures_run [OF _ _ _ this, of b] m
    have "fst (snd (forwardWithRetries w env b ?wd1)) =
          Some (failErr (http_do env (calls wd + 3)
                           (reqAfter env (calls wd) (postRequest w body) 3)))"
      by (simp add: c)
    then show ?thesis using gen by simp
  qed
  show ?thesis using gen ser url exh by blast
qed

lemma demoBroken_run:
  "forwardEvents demoCfg brokenMarshalEnv [''1''] False wd0 =
     \<lparr> calls = 0,
       trace = [ErrCh (Wrap (Wrap (External ''json: unsupported value'') ''marshal'')
                         ''forward with retries exhausted'')] \<rparr>"
  by (simp add: forwardEvents_def forwardWithRetries_def brokenMarshalEnv_def emit_def wd0_def)

theorem C6_every_error_is_wrapped_witness:
  "[''1''] \<noteq> [] \<and>
   marshal brokenMarshalEnv [''1''] = Inl (External ''json: unsupported value'') \<and>
   errSink (newEvents wd0 (forwardEvents demoCfg brokenMarshalEnv [''1''] False wd0)) =
     [Wrap (Wrap (External ''json: unsupported value'') ''marshal'')
           ''forward with retries exhausted''] \<and>
   marshal badUrlEnv [''1''] = Inr ''[1]'' \<and>
   url_error badUrlEnv (endpoint demoCfg) = Some (External ''parse: missing protocol scheme'') \<and>
   errSink (newEvents wd0 (forwardEvents demoCfg badUrlEnv [''1''] True wd0)) =
     [Wrap (Wrap (External ''parse: missing protocol scheme'') ''new HTTP request'')
           ''forward with retries exhausted''] \<and>
   errSink (newEvents wd0 (forwardEvents demoCfg always503Env [''1''] False wd0))
     = [Wrap (UnexpectedStatus 503) ''forward with retries exhausted''] \<and>
   errSink (newEvents wd0
      (forwardEvents demoCfg refusedThenOkEnv [''1'', ''2''] False wd0)) = []"
proof -
  have ne: "[''1''] \<noteq> ([] :: string list)" "[''1'', ''2''] \<noteq> ([] :: string list)"
    by simp_all
  have h1: "marshal brokenMarshalEnv [''1''] = Inl (External ''json: unsupported value'')"
    by (simp add: brokenMarshalEnv_def)
  have h2: "marshal badUrlEnv [''1''] = Inr ''[1]''"
    by (simp add: badUrlEnv_def jsonArray_def)
  have h3: "url_error badUrlEnv (endpoint demoCfg) =
            Some (External ''parse: missing protocol scheme'')"
    by (simp add: badUrlEnv_def)
  have f: "flushStart demoCfg False wd0 = wd0" by (simp add: flushStart_def)
  from C6_every_error_is_wrapped [OF ne(1), of wd0 demoCfg brokenMarshalEnv False] h1
  have a: "errSink (newEvents wd0 (forwardEvents demoCfg brokenMarshalEnv [''1''] False wd0)) =
     [Wrap (Wrap (External ''json: unsupported value'') ''marshal'')
           ''forward with retries exhausted'']"
    by blast
  from C6_every_error_is_wrapped [OF ne(1), of wd0 demoCfg badUrlEnv True] h2 h3
  have b: "errSink (newEvents wd0 (forwardEvents demoCfg badUrlEnv [''1''] True wd0)) =
     [Wrap (Wrap (External ''parse: missing protocol scheme'') ''new HTTP request'')
           ''forward with retries exhausted'']"
    by blast
  from C6_every_error_is_wrapped [OF ne(1), of wd0 demoCfg always503Env False]
  have c: "errSink (newEvents wd0 (forwardEvents demoCfg always503Env [''1''] False wd0))
     = [Wrap (UnexpectedStatus 503) ''forward with retries exhausted'']"
    by (simp add: f demo503_run)
  from C6_every_error_is_wrapped [OF ne(2), of wd0 demoCfg refusedThenOkEnv False]
  have d: "errSink (newEvents wd0
      (forwardEvents demoCfg refusedThenOkEnv [''1'', ''2''] False wd0)) = []"
    by (simp add: f demoRetry_run)
  show ?thesis using ne(1) h1 h2 h3 a b c d by blast
qed

theorem C6_fatal_errors_unwrapped_counterexample:
  "httpAttempts (newEvents wd0 (forwardEvents demoCfg brokenMarshalEnv [''1''] False wd0)) = 0 \<and>
   errSink (newEvents wd0 (forwardEvents demoCfg brokenMarshalEnv [''1''] False wd0)) =
     [Wrap (Wrap (External ''json: unsupported value'') ''marshal'')
           ''forward with retries exhausted''] \<and>
   errSink (newEvents wd0 (forwardEvents demoCfg brokenMarshalEnv [''1''] False wd0)) \<noteq>
     [Wrap (External ''json: unsupported value'') ''marshal'']"
  by (simp add: demoBroken_run newEvents_def httpAttempts_def) (simp add: wd0_def)

section \<open>Properties of the accumulator\<close>

lemma received_append [simp]: "received (xs @ ys) = received xs @ received ys"
  by (induction xs rule: received.induct) simp_all

lemma bgRun_append:
  "bgRun w env (xs @ ys) st = Option.bind (bgRun w env xs st) (bgRun w env ys)"
  by (induction xs arbitrary: st) (simp_all split: option.splits)

lemma bgIteration_total: "bgIteration w env rdy st \<noteq> None"
  by (simp add: bgIteration_def goSelect_def Let_def split: ready.splits)

lemma bgIteration_no_timer:
  assumes "deadline st = None" and "batchInterval w \<le> 0"
  shows "bgIteration w env rdy st =
           (case rdy of
              RecvMsg ep \<Rightarrow>
                Some ((afterSizeCheck w env st)
                        \<lparr> eventsPayload := eventsPayload (afterSizeCheck w env st) @ [ep] \<rparr>)
            | DeadlineFired \<Rightarrow> Some (afterSizeCheck w env st)
            | NoneReady \<Rightarrow> Some (afterSizeCheck w env st))"
    and "deadline (afterSizeCheck w env st) = None"
  using assms
  by (simp_all add: bgIteration_def goSelect_def Let_def afterSizeCheck_def split: ready.splits)

lemma leftover_short: "0 < n \<Longrightarrow> length (leftover n xs) < n"
  by (induction n xs rule: leftover.induct) (subst leftover.simps, simp)

lemma fullBatches_length: "b \<in> set (fullBatches n xs) \<Longrightarrow> length b = n"
proof (induction n xs rule: fullBatches.induct)
  case (1 n xs)
  then show ?case
    by (subst (asm) (2) fullBatches.simps) (auto split: if_splits)
qed

lemma fullBatches_concat: "concat (fullBatches n xs) @ leftover n xs = xs"
proof (induction n xs rule: fullBatches.induct)
  case (1 n xs)
  show ?case
  proof (cases "n = 0 \<or> length xs < n")
    case True
    then show ?thesis by (subst fullBatches.simps, subst leftover.simps) simp
  next
    case False
    then have "concat (fullBatches n xs) @ leftover n xs =
               take n xs @ (concat (fullBatches n (drop n xs)) @ leftover n (drop n xs))"
      by (subst fullBatches.simps, subst leftover.simps) simp
    also have "\<dots> = xs" using 1 False by simp
    finally show ?thesis .
  qed
qed

lemma fullBatches_short: "length xs < n \<Longrightarrow> fullBatches n xs = []"
  by (subst fullBatches.simps) simp

lemma leftover_stop: "length xs < n \<Longrightarrow> leftover n xs = xs"
  by (subst leftover.simps) simp

lemma fullBatches_step:
  "0 < n \<Longrightarrow> n \<le> length xs \<Longrightarrow> fullBatches n xs = take n xs # fullBatches n (drop n xs)"
  by (subst fullBatches.simps) simp

lemma leftover_step:
  "0 < n \<Longrightarrow> n \<le> length xs \<Longrightarrow> leftover n xs = leftover n (drop n xs)"
  by (subst leftover.simps) simp

lemma batches_snoc:
  assumes "0 < n"
  shows "fullBatches n (xs @ [x]) =
           (if length (leftover n xs) + 1 = n
            then fullBatches n xs @ [leftover n xs @ [x]] else fullBatches n xs)
         \<and> leftover n (xs @ [x]) =
           (if length (leftover n xs) + 1 = n then [] else leftover n xs @ [x])"
  using assms
proof (induction n xs rule: fullBatches.induct)
  case (1 n xs)
  show ?case
  proof (cases "length xs < n")
    case True
    note l = leftover_stop [OF True] fullBatches_short [OF True]
    show ?thesis
    proof (cases "length xs + 1 = n")
      case True
      then have "fullBatches n (xs @ [x]) = [xs @ [x]]"
        using \<open>0 < n\<close> by (simp add: fullBatches_step fullBatches_short)
      moreover have "leftover n (xs @ [x]) = []"
        using True \<open>0 < n\<close> by (simp add: leftover_step leftover_stop)
      ultimately show ?thesis using l True by simp
    next
      case False
      with True have "length (xs @ [x]) < n" by simp
      then have "fullBatches n (xs @ [x]) = []" "leftover n (xs @ [x]) = xs @ [x]"
        by (rule fullBatches_short, rule leftover_stop)
      then show ?thesis using l False by simp
    qed
  next
    case False
    with \<open>0 < n\<close> have c: "\<not> (n = 0 \<or> length xs < n)" by simp
    have l: "leftover n xs = leftover n (drop n xs)"
            "fullBatches n xs = take n xs # fullBatches n (drop n xs)"
      using False \<open>0 < n\<close> by (simp_all add: leftover_step fullBatches_step)
    have l': "leftover n (xs @ [x]) = leftover n (drop n xs @ [x])"
             "fullBatches n (xs @ [x]) = take n xs # fullBatches n (drop n xs @ [x])"
      using False \<open>0 < n\<close> by (simp_all add: leftover_step fullBatches_step)
    from 1(1) [OF c \<open>0 < n\<close>] show ?thesis
      unfolding l l' by simp
  qed
qed

lemma deliverAll_snoc [simp]:
  "deliverAll w env (bs @ [b]) wd = forwardEvents w env b False (deliverAll w env bs wd)"
  by (simp add: deliverAll_def)

lemma deliverAll_Nil [simp]: "deliverAll w env [] wd = wd"
  by (simp add: deliverAll_def)

lemma size_batching_invariant:
  assumes bs: "batchSize w = int n" and pos: "0 < n" and bi: "batchInterval w = 0"
  shows "\<exists>st. bgRun w env sched (bgInit w wd) = Some st \<and> deadline st = None \<and>
              afterSizeCheck w env st =
                \<lparr> eventsPayload = leftover n (received sched), deadline = None,
                  wld = deliverAll w env (fullBatches n (received sched)) wd \<rparr>"
proof (induction sched rule: rev_induct)
  case Nil
  have "afterSizeCheck w env (bgInit w wd) = bgInit w wd"
    using bs pos by (simp add: afterSizeCheck_def bgInit_def)
  then show ?case
    using bi pos by (simp add: bgInit_def leftover_stop fullBatches_short)
next
  case (snoc rdy sched)
  let ?recs = "received sched"
  let ?T = "\<lparr> eventsPayload = leftover n ?recs, deadline = None,
              wld = deliverAll w env (fullBatches n ?recs) wd \<rparr>"
  from snoc obtain st where st: "bgRun w env sched (bgInit w wd) = Some st"
    "deadline st = None" "afterSizeCheck w env st = ?T"
    by blast
  have bi': "batchInterval w \<le> 0" using bi by simp
  have short: "length (leftover n ?recs) < n" by (rule leftover_short [OF pos])
  have run: "bgRun w env (sched @ [rdy]) (bgInit w wd) = bgIteration w env rdy st"
    using st(1) by (simp add: bgRun_append split: option.splits)
  have idle: "afterSizeCheck w env ?T = ?T"
    using bs short by (simp add: afterSizeCheck_def)
  show ?case
  proof (cases rdy)
    case (RecvMsg ep)
    let ?st' = "?T\<lparr> eventsPayload := leftover n ?recs @ [ep] \<rparr>"
    have it: "bgIteration w env rdy st = Some ?st'"
      using bgIteration_no_timer(1) [OF st(2) bi', of env rdy] RecvMsg st(3) by simp
    have "afterSizeCheck w env ?st' =
            \<lparr> eventsPayload = leftover n (?recs @ [ep]), deadline = None,
              wld = deliverAll w env (fullBatches n (?recs @ [ep])) wd \<rparr>"
    proof (cases "length (leftover n ?recs) + 1 = n")
      case True
      then show ?thesis
        using bs bi pos batches_snoc [OF pos, of ?recs ep]
        by (simp add: afterSizeCheck_def)
    next
      case False
      with short have "length (leftover n ?recs) + 1 < n" by simp
      then show ?thesis
        using bs False batches_snoc [OF pos, of ?recs ep]
        by (simp add: afterSizeCheck_def)
    qed
    then show ?thesis using run it RecvMsg by simp
  next
    case DeadlineFired
    have "bgIteration w env rdy st = Some ?T"
      using bgIteration_no_timer(1) [OF st(2) bi', of env rdy] DeadlineFired st(3) by simp
    then show ?thesis using run idle DeadlineFired by simp
  next
    case NoneReady
    have "bgIteration w env rdy st = Some ?T"
      using bgIteration_no_timer(1) [OF st(2) bi', of env rdy] NoneReady st(3) by simp
    then show ?thesis using run idle NoneReady by simp
  qed
qed

text \<open>
  Claim C3. With \<open>batchSize = n > 0\<close> and \<open>batchInterval = 0\<close>, whatever the schedule,
  once the loop has made its next pass the records received so far have been flushed in
  consecutive batches of exactly \<open>n\<close>, in arrival order, each delivered in turn by
  \<open>forwardEvents\<close>, and the buffer holds the fewer than \<open>n\<close> records that came after the
  last full batch: the record after a full batch starts a new one. For \<open>n = 2\<close> and
  records A, B, C, D these are the two flushes [A,B] and [C,D], in that order.
\<close>

theorem C3_size_triggered_flush:
  assumes bs: "batchSize w = int n" and pos: "0 < n" and bi: "batchInterval w = 0"
  shows "bgRun w env (sched @ [NoneReady]) (bgInit w wd) =
           Some \<lparr> eventsPayload = leftover n (received sched), deadline = None,
                  wld = deliverAll w env (fullBatches n (received sched)) wd \<rparr>
         \<and> (\<forall>b\<in>set (fullBatches n (received sched)). length b = n)
         \<and> concat (fullBatches n (received sched)) @ leftover n (received sched) =
             received sched
         \<and> length (leftover n (received sched)) < n"
proof -
  from size_batching_invariant [OF bs pos bi, of env sched wd] obtain st where
    st: "bgRun w env sched (bgInit w wd) = Some st" "deadline st = None"
        "afterSizeCheck w env st =
           \<lparr> eventsPayload = leftover n (received sched), deadline = None,
             wld = deliverAll w env (fullBatches n (received sched)) wd \<rparr>"
    by blast
  have bi': "batchInterval w \<le> 0" using bi by simp
  have "bgRun w env (sched @ [NoneReady]) (bgInit w wd) = bgIteration w env NoneReady st"
    using st(1) by (simp add: bgRun_append split: option.splits)
  also have "\<dots> = Some (afterSizeCheck w env st)"
    using bgIteration_no_timer(1) [OF st(2) bi', of env NoneReady] by simp
  finally show ?thesis
    using st(3) fullBatches_length [of _ n "received sched"]
      fullBatches_concat [of n "received sched"] leftover_short [OF pos, of "received sched"]
    by simp
qed

lemma demoOk_run:
  "forwardEvents demoCfg (demoEnv (\<lambda>n. Response 200)) [x, y] False \<lparr> calls = c, trace = tr \<rparr> =
     \<lparr> calls = Suc c,
       trace = tr @ [HttpDo (postRequest demoCfg (jsonArray [x, y])), LogSuccess 200 2] \<rparr>"
  by (simp add: forwardEvents_def forwardWithRetries_def newRequest_def headerAdd_def
        forwardLoop.simps clientDo_def bodyRead_def emit_def Let_def demoFlags_def demoCfg_def
        newWebhookForwarderHandler_def demoEnv_def postRequest_def)

theorem C3_size_triggered_flush_witness:
  "batchSize demoCfg = int 2 \<and> 0 < (2::nat) \<and> batchInterval demoCfg = 0 \<and>
   bgRun demoCfg (demoEnv (\<lambda>n. Response 200))
     ([RecvMsg ''A'', RecvMsg ''B'', RecvMsg ''C'', RecvMsg ''D''] @ [NoneReady])
     (bgInit demoCfg wd0) =
     Some \<lparr> eventsPayload = [], deadline = None,
            wld = \<lparr> calls = 2,
                    trace = [HttpDo (postRequest demoCfg ''[A,B]''), LogSuccess 200 2,
                             HttpDo (postRequest demoCfg ''[C,D]''), LogSuccess 200 2] \<rparr> \<rparr>"
proof -
  have h1: "batchSize demoCfg = int 2" by (simp add: demo_defs)
  have h2: "0 < (2::nat)" by simp
  have h3: "batchInterval demoCfg = 0" by (simp add: demo_defs)
  have recs: "received [RecvMsg ''A'', RecvMsg ''B'', RecvMsg ''C'', RecvMsg ''D'']
              = [''A'', ''B'', ''C'', ''D'']" by simp
  have fb: "fullBatches 2 [''A'', ''B'', ''C'', ''D''] = [[''A'', ''B''], [''C'', ''D'']]"
    by (simp add: fullBatches.simps)
  have lo: "leftover 2 [''A'', ''B'', ''C'', ''D''] = []"
    by (simp add: leftover.simps)
  have dl: "deliverAll demoCfg (demoEnv (\<lambda>n. Response 200))
              [[''A'', ''B''], [''C'', ''D'']] wd0 =
            \<lparr> calls = 2,
              trace = [HttpDo (postRequest demoCfg ''[A,B]''), LogSuccess 200 2,
                       HttpDo (postRequest demoCfg ''[C,D]''), LogSuccess 200 2] \<rparr>"
    by (simp add: deliverAll_def wd0_def demoOk_run jsonArray_def)
  from C3_size_triggered_flush [OF h1 h2 h3, of "demoEnv (\<lambda>n. Response 200)"
      "[RecvMsg ''A'', RecvMsg ''B'', RecvMsg ''C'', RecvMsg ''D'']" wd0]
  have "bgRun demoCfg (demoEnv (\<lambda>n. Response 200))
     ([RecvMsg ''A'', RecvMsg ''B'', RecvMsg ''C'', RecvMsg ''D''] @ [NoneReady])
     (bgInit demoCfg wd0) =
     Some \<lparr> eventsPayload = leftover 2 [''A'', ''B'', ''C'', ''D''], deadline = None,
            wld = deliverAll demoCfg (demoEnv (\<lambda>n. Response 200))
                    (fullBatches 2 [''A'', ''B'', ''C'', ''D'']) wd0 \<rparr>"
    unfolding recs by blast
  then show ?thesis unfolding fb lo dl using h1 h3 by simp
qed

lemma no_trigger_run:
  assumes "batchSize w \<le> 0" and "batchInterval w \<le> 0"
  shows "deadline st = None \<Longrightarrow>
         bgRun w env sched st = Some (st\<lparr> eventsPayload := eventsPayload st @ received sched \<rparr>)"
proof (induction sched arbitrary: st)
  case Nil
  then show ?case by simp
next
  case (Cons rdy sched)
  have same: "afterSizeCheck w env st = st"
    using assms(1) by (simp add: afterSizeCheck_def)
  show ?case
  proof (cases rdy)
    case (RecvMsg ep)
    have "bgIteration w env rdy st = Some (st\<lparr> eventsPayload := eventsPayload st @ [ep] \<rparr>)"
      using bgIteration_no_timer(1) [OF Cons.prems assms(2), of env rdy] RecvMsg same by simp
    then show ?thesis
      using Cons.IH [of "st\<lparr> eventsPayload := eventsPayload st @ [ep] \<rparr>"] Cons.prems RecvMsg
      by simp
  next
    case DeadlineFired
    have "bgIteration w env rdy st = Some st"
      using bgIteration_no_timer(1) [OF Cons.prems assms(2), of env rdy] DeadlineFired same
      by simp
    then show ?thesis using Cons.IH [OF Cons.prems] DeadlineFired by simp
  next
    case NoneReady
    have "bgIteration w env rdy st = Some st"
      using bgIteration_no_timer(1) [OF Cons.prems assms(2), of env rdy] NoneReady same
      by simp
    then show ?thesis using Cons.IH [OF Cons.prems] NoneReady by simp
  qed
qed

text \<open>
  Claim C8. The constructor accepts \<open>batchSize = 0\<close> with \<open>batchInterval = 0\<close>, and
  with that configuration no schedule ever leads to a delivery: the world stays as it
  was, no timer is set, and every record received stays in the buffer.
\<close>

theorem C8_never_auto_flush:
  assumes "flagBatchSize fl = 0" and "flagBatchInterval fl = 0"
  shows "batchSize (newWebhookForwarderHandler fl) = 0 \<and>
         batchInterval (newWebhookForwarderHandler fl) = 0 \<and>
         bgRun (newWebhookForwarderHandler fl) env sched
               (bgInit (newWebhookForwarderHandler fl) wd) =
           Some \<lparr> eventsPayload = received sched, deadline = None, wld = wd \<rparr>"
proof -
  let ?w = "newWebhookForwarderHandler fl"
  have z: "batchSize ?w = 0" "batchInterval ?w = 0"
    using assms by (simp_all add: newWebhookForwarderHandler_def)
  have i: "bgInit ?w wd = \<lparr> eventsPayload = [], deadline = None, wld = wd \<rparr>"
    using z by (simp add: bgInit_def)
  have "bgRun ?w env sched (bgInit ?w wd) =
        Some ((bgInit ?w wd)\<lparr> eventsPayload := eventsPayload (bgInit ?w wd) @ received sched \<rparr>)"
    using z by (intro no_trigger_run) (simp_all add: i)
  then show ?thesis using z by (simp add: i)
qed

theorem C8_never_auto_flush_witness:
  "flagBatchSize zeroFlags = 0 \<and> flagBatchInterval zeroFlags = 0 \<and>
   batchSize (newWebhookForwarderHandler zeroFlags) = 0 \<and>
   batchInterval (newWebhookForwarderHandler zeroFlags) = 0 \<and>
   bgRun (newWebhookForwarderHandler zeroFlags) (demoEnv (\<lambda>n. Response 200))
     [RecvMsg ''A'', DeadlineFired, RecvMsg ''B'', NoneReady, RecvMsg ''C'']
     (bgInit (newWebhookForwarderHandler zeroFlags) wd0) =
     Some \<lparr> eventsPayload = [''A'', ''B'', ''C''], deadline = None, wld = wd0 \<rparr>"
proof -
  have h: "flagBatchSize zeroFlags = 0" "flagBatchInterval zeroFlags = 0"
    by (simp_all add: zeroFlags_def)
  from C8_never_auto_flush [OF h, of "demoEnv (\<lambda>n. Response 200)"
      "[RecvMsg ''A'', DeadlineFired, RecvMsg ''B'', NoneReady, RecvMsg ''C'']" wd0] h
  show ?thesis by simp
qed

lemma bgIteration_split:
  "bgIteration w env rdy st =
     (case goSelect True (deadline (afterSizeCheck w env st) \<noteq> None) rdy of
        None \<Rightarrow> None
      | Some (CaseMsg ep) \<Rightarrow>
          Some ((afterSizeCheck w env st)
                  \<lparr> eventsPayload := eventsPayload (afterSizeCheck w env st) @ [ep] \<rparr>)
      | Some CaseDeadline \<Rightarrow>
          Some \<lparr> eventsPayload = [],
                 deadline = (if batchInterval w > 0 then Some (batchInterval w) else None),
                 wld = forwardEvents w env (eventsPayload (afterSizeCheck w env st)) True
                         (wld (afterSizeCheck w env st)) \<rparr>
      | Some CaseDefault \<Rightarrow> Some (afterSizeCheck w env st))"
  unfolding bgIteration_def afterSizeCheck_def Let_def by (rule refl)

lemma below_threshold:
  "\<not> (batchSize w > 0 \<and> int (length (eventsPayload st)) \<ge> batchSize w) \<Longrightarrow>
   afterSizeCheck w env st = st"
  by (auto simp: afterSizeCheck_def)

lemma idle_iteration:
  assumes "\<not> (batchSize w > 0 \<and> int (length (eventsPayload st)) \<ge> batchSize w)"
  shows "bgIteration w env NoneReady st = Some st"
    and "deadline st = None \<Longrightarrow> bgIteration w env DeadlineFired st = Some st"
  by (simp_all add: bgIteration_split below_threshold [OF assms] goSelect_def)

lemma quiet_run:
  assumes "deadline st = None"
    and "\<not> (batchSize w > 0 \<and> int (length (eventsPayload st)) \<ge> batchSize w)"
  shows "received quiet = [] \<Longrightarrow> bgRun w env quiet st = Some st"
proof (induction quiet)
  case Nil
  show ?case by simp
next
  case (Cons rdy quiet)
  then have r: "\<forall>ep. rdy \<noteq> RecvMsg ep" "received quiet = []"
    by (cases rdy; simp)+
  have "bgIteration w env rdy st = Some st"
    using r(1) idle_iteration [OF assms(2), of env] assms(1) by (cases rdy) simp_all
  then show ?case using Cons.IH [OF r(2)] by simp
qed

lemma idle_polls: 
  assumes "\<not> (batchSize w > 0 \<and> int (length (eventsPayload st)) \<ge> batchSize w)"
  shows "bgRun w env (replicate k NoneReady) st = Some st"
  by (induction k) (simp_all add: idle_iteration(1) [OF assms])

text \<open>
  Claim C9, as amended. The wait is not a blocking one. When the buffer is below the
  size threshold and the \<^verbatim>\<open>select\<close> finds nothing ready, its \<^verbatim>\<open>default\<close> case runs and
  the iteration ends at once with the state unchanged, so the loop goes round again: any
  number of such passes in a row leaves the state as it was. No iteration ever parks the
  goroutine in the \<^verbatim>\<open>select\<close>.
\<close>

theorem C9_idle_wait_is_a_poll:
  assumes "\<not> (batchSize w > 0 \<and> int (length (eventsPayload st)) \<ge> batchSize w)"
  shows "bgIteration w env NoneReady st = Some st \<and>
         bgRun w env (replicate k NoneReady) st = Some st \<and>
         bgIteration w env rdy st' \<noteq> None"
  using idle_iteration(1) [OF assms] idle_polls [OF assms] bgIteration_total
  by blast

theorem C9_idle_wait_is_a_poll_witness:
  "\<not> (batchSize demoCfg > 0 \<and>
      int (length (eventsPayload (bgInit demoCfg wd0 :: string bgState))) \<ge> batchSize demoCfg) \<and>
   bgRun demoCfg (demoEnv (\<lambda>n. Response 200)) (replicate 3 NoneReady) (bgInit demoCfg wd0)
     = Some (bgInit demoCfg wd0)"
proof -
  have h: "\<not> (batchSize demoCfg > 0 \<and>
      int (length (eventsPayload (bgInit demoCfg wd0 :: string bgState))) \<ge> batchSize demoCfg)"
    by (simp add: demo_defs bgInit_def)
  from C9_idle_wait_is_a_poll [OF h, of "demoEnv (\<lambda>n. Response 200)" 3] h
  show ?thesis by blast
qed

theorem C9_blocking_wait_counterexample:
  "int (length (eventsPayload (bgInit demoCfg wd0 :: string bgState))) < batchSize demoCfg \<and>
   bgIteration demoCfg okEnv NoneReady (bgInit demoCfg wd0) \<noteq> None \<and>
   bgIteration demoCfg okEnv NoneReady (bgInit demoCfg wd0) = Some (bgInit demoCfg wd0)"
  by (simp add: demo_defs okEnv_def bgInit_def bgIteration_def goSelect_def)

lemma bgLoop_never_returns: "bgLoop w env sched i st = None"
proof (cases "bgLoop w env sched i st")
  case None
  then show ?thesis .
next
  case (Some y)
  have False
    by (rule bgLoop.raw_induct [where P = "\<lambda>w env sched i st y. False", OF _ Some])
       (auto simp: bind_eq_Some_conv)
  then show ?thesis ..
qed

text \<open>
  Claim C10. \<open>bgProcessor\<close> never returns, whatever the schedule, also one in which
  records stop arriving. Once they have stopped, with no timer set and the buffer below
  the size threshold, every further pass leaves the state as it is: the buffered records
  stay where they are and nothing is delivered.
\<close>

theorem C10_processor_never_returns:
  "bgProcessor w env sched wd = None \<and>
   bgLoop w env sched i st0 = None \<and>
   (received quiet = [] \<and> deadline st = None \<and>
    \<not> (batchSize w > 0 \<and> int (length (eventsPayload st)) \<ge> batchSize w)
    \<longrightarrow> bgRun w env quiet st = Some st)"
  by (simp add: bgProcessor_def bgLoop_never_returns quiet_run)

theorem C10_processor_never_returns_witness:
  "received [NoneReady, DeadlineFired, NoneReady :: string ready] = [] \<and>
   deadline \<lparr> eventsPayload = [''A''], deadline = None, wld = wd0 \<rparr> = None \<and>
   \<not> (batchSize demoCfg > 0 \<and>
      int (length (eventsPayload \<lparr> eventsPayload = [''A''], deadline = None, wld = wd0 \<rparr>))
        \<ge> batchSize demoCfg) \<and>
   bgRun demoCfg (demoEnv (\<lambda>n. Response 200)) [NoneReady, DeadlineFired, NoneReady]
     \<lparr> eventsPayload = [''A''], deadline = None, wld = wd0 \<rparr>
     = Some \<lparr> eventsPayload = [''A''], deadline = None, wld = wd0 \<rparr> \<and>
   bgProcessor demoCfg (demoEnv (\<lambda>n. Response 200))
     (\<lambda>i. if i = 0 then RecvMsg ''A'' else NoneReady) wd0 = None"
proof -
  let ?st = "\<lparr> eventsPayload = [''A''], deadline = None, wld = wd0 \<rparr>"
  have h: "received [NoneReady, DeadlineFired, NoneReady :: string ready] = [] \<and>
           deadline ?st = None \<and>
           \<not> (batchSize demoCfg > 0 \<and> int (length (eventsPayload ?st)) \<ge> batchSize demoCfg)"
    by (simp add: demo_defs)
  from C10_processor_never_returns [of demoCfg "demoEnv (\<lambda>n. Response 200)"
      "\<lambda>i. if i = 0 then RecvMsg ''A'' else NoneReady" wd0 0 "bgInit demoCfg wd0"
      "[NoneReady, DeadlineFired, NoneReady]" ?st] h
  show ?thesis by blast
qed

lemma forwardEvents_deliver:
  "forwardEvents w env b byInterval wd = (if b = [] then wd else deliver w env b byInterval wd)"
  by (simp add: forwardEvents_empty forwardEvents_nonempty deliver_def)

lemma deliveries_append [simp]:
  "deliveries w env (ps @ qs) wd = deliveries w env qs (deliveries w env ps wd)"
  by (simp add: deliveries_def)

lemma forwardEvents_deliveries:
  "\<exists>ps. (\<forall>p\<in>set ps. fst p \<noteq> []) \<and> forwardEvents w env b f wd = deliveries w env ps wd"
proof (cases "b = []")
  case True
  have "(\<forall>p\<in>set ([] :: ('a list \<times> bool) list). fst p \<noteq> []) \<and>
        forwardEvents w env b f wd = deliveries w env [] wd"
    using True by (simp add: forwardEvents_deliver deliveries_def)
  then show ?thesis by blast
next
  case False
  then have "(\<forall>p\<in>set [(b, f)]. fst p \<noteq> []) \<and>
             forwardEvents w env b f wd = deliveries w env [(b, f)] wd"
    by (simp add: forwardEvents_deliver deliveries_def)
  then show ?thesis by blast
qed

lemma afterSizeCheck_deliveries:
  "\<exists>ps. (\<forall>p\<in>set ps. fst p \<noteq> []) \<and>
        wld (afterSizeCheck w env st) = deliveries w env ps (wld st)"
proof (cases "batchSize w > 0 \<and> int (length (eventsPayload st)) \<ge> batchSize w")
  case True
  then have "wld (afterSizeCheck w env st) = forwardEvents w env (eventsPayload st) False (wld st)"
    by (simp add: afterSizeCheck_def)
  then show ?thesis using forwardEvents_deliveries [of w env "eventsPayload st" False "wld st"]
    by simp
next
  case False
  then have "(\<forall>p\<in>set ([] :: ('a list \<times> bool) list). fst p \<noteq> []) \<and>
     wld (afterSizeCheck w env st) = deliveries w env [] (wld st)"
    by (simp add: below_threshold deliveries_def)
  then show ?thesis by blast
qed

lemma bgIteration_deliveries:
  assumes "bgIteration w env rdy st = Some st'"
  shows "\<exists>ps. (\<forall>p\<in>set ps. fst p \<noteq> []) \<and> wld st' = deliveries w env ps (wld st)"
proof -
  let ?st1 = "afterSizeCheck w env st"
  from afterSizeCheck_deliveries [of w env st] obtain ps where
    ps: "\<forall>p\<in>set ps. fst p \<noteq> []" "wld ?st1 = deliveries w env ps (wld st)" by blast
  from forwardEvents_deliveries [of w env "eventsPayload ?st1" True "wld ?st1"] obtain qs where
    qs: "\<forall>p\<in>set qs. fst p \<noteq> []"
        "forwardEvents w env (eventsPayload ?st1) True (wld ?st1) = deliveries w env qs (wld ?st1)"
    by blast
  have "wld st' = wld ?st1 \<or> wld st' = forwardEvents w env (eventsPayload ?st1) True (wld ?st1)"
    using assms
    by (auto simp: bgIteration_split split: option.splits selected.splits)
  then show ?thesis
  proof
    assume "wld st' = wld ?st1"
    with ps show ?thesis by auto
  next
    assume "wld st' = forwardEvents w env (eventsPayload ?st1) True (wld ?st1)"
    then have "wld st' = deliveries w env (ps @ qs) (wld st)"
      using ps(2) qs(2) by simp
    moreover have "\<forall>p\<in>set (ps @ qs). fst p \<noteq> []" using ps(1) qs(1) by auto
    ultimately show ?thesis by blast
  qed
qed

lemma bgRun_deliveries:
  "bgRun w env sched st = Some st' \<Longrightarrow>
   \<exists>ps. (\<forall>p\<in>set ps. fst p \<noteq> []) \<and> wld st' = deliveries w env ps (wld st)"
proof (induction sched arbitrary: st)
  case Nil
  then have "(\<forall>p\<in>set ([] :: ('a list \<times> bool) list). fst p \<noteq> []) \<and>
             wld st' = deliveries w env [] (wld st)"
    by (simp add: deliveries_def)
  then show ?case by blast
next
  case (Cons rdy sched)
  then obtain st1 where s: "bgIteration w env rdy st = Some st1" "bgRun w env sched st1 = Some st'"
    by (auto split: option.splits)
  from bgIteration_deliveries [OF s(1)] obtain ps where
    ps: "\<forall>p\<in>set ps. fst p \<noteq> []" "wld st1 = deliveries w env ps (wld st)" by blast
  from Cons.IH [OF s(2)] obtain qs where
    qs: "\<forall>p\<in>set qs. fst p \<noteq> []" "wld st' = deliveries w env qs (wld st1)" by blast
  have "wld st' = deliveries w env (ps @ qs) (wld st)" using ps(2) qs(2) by simp
  moreover have "\<forall>p\<in>set (ps @ qs). fst p \<noteq> []" using ps(1) qs(1) by auto
  ultimately show ?case by blast
qed

lemma bgRun_total: "\<exists>st'. bgRun w env sched st = Some st'"
  by (induction sched arbitrary: st) (auto simp: bgIteration_total split: option.splits)

text \<open>
  Claim C7. \<open>forwardEvents\<close> on an empty batch returns the world as it was: no HTTP
  call, nothing on the error sink, no log line; and it changes the world exactly when the
  batch is not empty. So the world after any run of the accumulator is the outcome of
  a sequence of calls of \<open>forwardWithRetries\<close>, every one of them on a non-empty batch.
\<close>

theorem C7_empty_flush_is_noop:
  "forwardEvents w env [] byInterval wd = wd \<and>
   ((forwardEvents w env b byInterval wd = wd) = (b = [])) \<and>
   (\<exists>st ps. bgRun w env sched (bgInit w wd) = Some st \<and>
      (\<forall>p\<in>set ps. fst p \<noteq> []) \<and> wld st = deliveries w env ps wd)"
proof -
  have a: "forwardEvents w env b byInterval wd \<noteq> wd" if "b \<noteq> []"
  proof -
    from forwardEvents_trace [OF that, of w env byInterval wd]
    obtain evs ev where "trace (forwardEvents w env b byInterval wd) = trace wd @ evs @ [ev]"
      by blast
    then have "trace (forwardEvents w env b byInterval wd) \<noteq> trace wd" by simp
    then show ?thesis by auto
  qed
  from bgRun_total [of w env sched "bgInit w wd"] obtain st where
    st: "bgRun w env sched (bgInit w wd) = Some st" by blast
  from bgRun_deliveries [OF st] obtain ps where
    "\<forall>p\<in>set ps. fst p \<noteq> []" "wld st = deliveries w env ps wd"
    by (auto simp: bgInit_def)
  with st a show ?thesis by (auto simp: forwardEvents_empty)
qed

theorem C7_empty_flush_is_noop_witness:
  "forwardEvents demoCfg (demoEnv (\<lambda>n. Response 200)) [] True wd0 = wd0 \<and>
   forwardEvents demoCfg (demoEnv (\<lambda>n. Response 200)) [''A''] True wd0 \<noteq> wd0 \<and>
   (\<exists>st ps. bgRun demoCfg (demoEnv (\<lambda>n. Response 200))
               [RecvMsg ''A'', RecvMsg ''B'', NoneReady] (bgInit demoCfg wd0) = Some st \<and>
            (\<forall>p\<in>set ps. fst p \<noteq> []) \<and>
            wld st = deliveries demoCfg (demoEnv (\<lambda>n. Response 200)) ps wd0)"
  using C7_empty_flush_is_noop [of demoCfg "demoEnv (\<lambda>n. Response 200)" True wd0 "[''A'']"
      "[RecvMsg ''A'', RecvMsg ''B'', NoneReady]"]
  by simp

end
